theory Spec2Isabelle
  imports Complex_Main
begin

section \<open>The cache simulator of \<^verbatim>\<open>src/components/Diagrams.tsx\<close>\<close>

text \<open>
  The simulator lives in the React component \<^verbatim>\<open>CacheSimulatorDiagram\<close>. Its state is
  five \<^verbatim>\<open>useState\<close> cells; \<^verbatim>\<open>access\<close> replaces the cache cell through an updater
  function and writes three of the other cells on its way. The embedding passes the
  five cells around as one record.

  Modelling choices, fixed here once:
  \<^item> \<^verbatim>\<open>recency\<close> and \<^verbatim>\<open>frequency\<close> are JavaScript numbers that start at 0 and 1 and
    are only ever incremented by 1 or reset to 0: they are modelled as \<open>nat\<close>.
  \<^item> \<^verbatim>\<open>score\<close> and \<^verbatim>\<open>confidence\<close> are JavaScript doubles. The simulator is modelled
    with \<open>predictReuseProb\<close>, which evaluates the scoring function in exact real
    arithmetic; \<open>predictReuseProb64\<close> evaluates the same lines in binary64, every
    operation rounded. The two are within \<open>1 / 2 ^ 50\<close> of each other and lie on the
    same side of the threshold (\<open>score64_close\<close>, \<open>score64_gate\<close>).
  \<^item> The block objects are mutated in place by the source. Every array the source
    builds holds each object once and the previous array is dropped, so the
    embedding returns the updated list of block values.
  \<^item> The updater function given to \<^verbatim>\<open>setCache\<close> runs once for each call of
    \<^verbatim>\<open>access\<close>, and the cells it writes on its way keep the last value written.
\<close>

subsection \<open>Data\<close>

text \<open>\<^verbatim>\<open>interface CacheBlock\<close> (lines 12-17). The field \<^verbatim>\<open>id\<close> is named \<open>id_block\<close>,
  since \<open>id\<close> is the identity function of HOL.\<close>

record CacheBlock =
  id_block :: string
  recency :: nat
  frequency :: nat
  score :: real

text \<open>\<^verbatim>\<open>type WorkloadType = 'Friendly' | 'Hostile'\<close> (line 19).\<close>

datatype WorkloadType = Friendly | Hostile

text \<open>The values of the \<^verbatim>\<open>decisionMode\<close> cell (line 29):
  \<^verbatim>\<open>'ML' | 'LRU_FALLBACK' | 'IDLE'\<close>.\<close>

datatype DecisionMode = Mode_ML | Mode_LRU_FALLBACK | Mode_IDLE

text \<open>The five state cells of the component (lines 25-29).\<close>

record SimState =
  cache :: "CacheBlock list"
  workload :: WorkloadType
  lastAction :: string
  confidence :: real
  decisionMode :: DecisionMode

definition CAPACITY :: nat where
  "CAPACITY = 4"

definition CONFIDENCE_THRESHOLD :: real where
  "CONFIDENCE_THRESHOLD = 0.88"

text \<open>The initial values of the cells: the arguments of the \<^verbatim>\<open>useState\<close> calls.\<close>

definition initialState :: SimState where
  "initialState =
     \<lparr>cache = [], workload = Hostile,
      lastAction = ''System Ready. Select a block to access.'',
      confidence = 0, decisionMode = Mode_IDLE\<rparr>"

subsection \<open>The scoring function\<close>

text \<open>\<^verbatim>\<open>predictReuseProb\<close> (lines 35-48), in exact real arithmetic.\<close>

definition predictReuseProb :: "nat \<Rightarrow> nat \<Rightarrow> WorkloadType \<Rightarrow> real" where
  "predictReuseProb freq rec type =
     (if type = Friendly then
        (let baseScore = 0.4 + (1 / (real rec + 1)) * 0.3
         in min 0.85 baseScore)
      else if freq \<ge> 2 then 0.95
      else if freq = 1 then 0.4
      else 0.1)"

subsection \<open>The scoring function in binary64\<close>

text \<open>JavaScript numbers are IEEE 754 binary64 values, and every arithmetic operation
  returns the exact result rounded to the nearest such value, ties going to the even
  significand. \<open>rne\<close> rounds a real number to the nearest integer, ties to even.\<close>

definition rne :: "real \<Rightarrow> int" where
  "rne a =
     (let f = \<lfloor>a\<rfloor>; d = a - of_int f
      in if d < 1/2 then f
         else if d > 1/2 then f + 1
         else if even f then f else f + 1)"

text \<open>\<open>fl64 x\<close> is the binary64 value nearest to \<open>x\<close>: with \<open>e\<close> the exponent of
  \<open>x\<close>, that is \<open>2 ^ e \<le> \<bar>x\<bar> < 2 ^ (e + 1)\<close>, the significand \<open>\<bar>x\<bar> / 2 ^ (e - 52)\<close> is
  rounded to an integer of 53 bits. The exponent is not bounded: \<open>fl64\<close> is the
  rounding of binary64 for \<open>2 ^ -1022 \<le> \<bar>x\<bar> < 2 ^ 1024\<close>, which holds for every value
  the scoring function computes from a recency below \<open>2 ^ 1000\<close>. (Beyond that the
  product of line 40 is subnormal in binary64 and rounded more coarsely there; it is
  then far below half a unit in the last place of 0.4, and the sum of line 40 is the
  literal 0.4 under either rounding.)\<close>

definition fl64 :: "real \<Rightarrow> real" where
  "fl64 x =
     (if x = 0 then 0
      else (let e = \<lfloor>log 2 \<bar>x\<bar>\<rfloor>
            in sgn x * of_int (rne (\<bar>x\<bar> * 2 powi (52 - e))) * 2 powi (e - 52)))"

text \<open>\<^verbatim>\<open>predictReuseProb\<close> (lines 35-48) as JavaScript evaluates it: a decimal literal
  denotes the nearest binary64 value, and \<^verbatim>\<open>recency + 1\<close>, the division, the
  multiplication and the addition of line 40 are each rounded. \<^verbatim>\<open>Math.min\<close> and the
  comparisons are exact. The recency is a number that a binary64 value can hold.\<close>

definition predictReuseProb64 :: "nat \<Rightarrow> nat \<Rightarrow> WorkloadType \<Rightarrow> real" where
  "predictReuseProb64 freq rec type =
     (if type = Friendly then
        (let baseScore = fl64 (fl64 0.4 + fl64 (fl64 (1 / fl64 (real rec + 1)) * fl64 0.3))
         in min (fl64 0.85) baseScore)
      else if freq \<ge> 2 then fl64 0.95
      else if freq = 1 then fl64 0.4
      else fl64 0.1)"

subsection \<open>Array helpers of JavaScript\<close>

text \<open>\<^verbatim>\<open>Array.prototype.findIndex\<close>: the first index whose element satisfies the
  predicate; \<open>None\<close> stands for the result \<^verbatim>\<open>-1\<close>.\<close>

fun findIndex :: "('a \<Rightarrow> bool) \<Rightarrow> 'a list \<Rightarrow> nat option" where
  "findIndex P [] = None"
| "findIndex P (x # xs) =
     (if P x then Some 0 else map_option Suc (findIndex P xs))"

text \<open>\<^verbatim>\<open>Math.max(...scores)\<close> on a non-empty argument list. (On no arguments JavaScript
  answers \<^verbatim>\<open>-Infinity\<close>, which no real number stands for; \<^verbatim>\<open>access\<close> calls it only on
  an array of at least \<^verbatim>\<open>CAPACITY\<close> = 4 scores.)\<close>

fun Math_max :: "real list \<Rightarrow> real" where
  "Math_max (x # xs) = fold max xs x"

subsection \<open>The steps of \<^verbatim>\<open>access\<close>\<close>

text \<open>The assignment \<^verbatim>\<open>b.score = predictReuseProb(b.frequency, b.recency, workload)\<close>.\<close>

definition rescore :: "WorkloadType \<Rightarrow> CacheBlock \<Rightarrow> CacheBlock" where
  "rescore w b = b\<lparr>score := predictReuseProb (frequency b) (recency b) w\<rparr>"

text \<open>The loop of the two miss paths (lines 83-86 and 91-94):
  \<^verbatim>\<open>newCache.forEach(b => { b.recency += 1; b.score = predictReuseProb(...) })\<close>.\<close>

definition ageAll :: "WorkloadType \<Rightarrow> CacheBlock list \<Rightarrow> CacheBlock list" where
  "ageAll w c = map (\<lambda>b. rescore w (b\<lparr>recency := recency b + 1\<rparr>)) c"

text \<open>The hit path (lines 60-67): the hit block's frequency goes up and its recency is
  reset; the loop ages every other block and rescores all of them; the hit block is
  rescored once more.\<close>

definition touchHit :: "WorkloadType \<Rightarrow> nat \<Rightarrow> CacheBlock list \<Rightarrow> CacheBlock list" where
  "touchHit w hitIndex c =
     (let c1 = c[hitIndex := (c ! hitIndex)\<lparr>frequency := frequency (c ! hitIndex) + 1,
                                             recency := 0\<rparr>];
          c2 = map (\<lambda>(idx, b).
                      rescore w (if idx \<noteq> hitIndex then b\<lparr>recency := recency b + 1\<rparr> else b))
                   (enumerate 0 c1)
      in c2[hitIndex := rescore w (c2 ! hitIndex)])"

text \<open>The two reductions that pick the victim (lines 105-107 and 112-114). Both start
  from index 0 and visit the indices in increasing order.\<close>

definition mlVictimIndex :: "CacheBlock list \<Rightarrow> nat" where
  "mlVictimIndex arr =
     fold (\<lambda>idx minIdx. if score (arr ! idx) < score (arr ! minIdx) then idx else minIdx)
          [0 ..< length arr] 0"

definition lruVictimIndex :: "CacheBlock list \<Rightarrow> nat" where
  "lruVictimIndex arr =
     fold (\<lambda>idx maxIdx. if recency (arr ! idx) > recency (arr ! maxIdx) then idx else maxIdx)
          [0 ..< length arr] 0"

text \<open>The gate (lines 100-117): from \<^verbatim>\<open>maxScore\<close> and the aged array to
  \<^verbatim>\<open>victimIndex\<close>, \<^verbatim>\<open>method\<close> and the value given to \<^verbatim>\<open>setDecisionMode\<close>.\<close>

definition selectVictim :: "real \<Rightarrow> CacheBlock list \<Rightarrow> nat \<times> string \<times> DecisionMode" where
  "selectVictim maxScore newCache =
     (if maxScore > CONFIDENCE_THRESHOLD
      then (mlVictimIndex newCache, ''ML (Confidence > 0.88)'', Mode_ML)
      else (lruVictimIndex newCache, ''LRU Fallback (Confidence Low)'', Mode_LRU_FALLBACK))"

text \<open>The eviction branch (lines 90-123).\<close>

definition evict :: "string \<Rightarrow> CacheBlock \<Rightarrow> SimState \<Rightarrow> SimState" where
  "evict blockId newBlock s =
     (let newCache = ageAll (workload s) (cache s);
          scores = map score newCache;
          maxScore = Math_max scores;
          (victimIndex, method, mode) = selectVictim maxScore newCache;
          victim = newCache ! victimIndex
      in s\<lparr>cache := newCache[victimIndex := newBlock],
           lastAction := ''Evicted '' @ id_block victim @ '' via '' @ method
                           @ ''. Inserted '' @ blockId @ ''.'',
           confidence := maxScore,
           decisionMode := mode\<rparr>)"

text \<open>\<^verbatim>\<open>access\<close> (lines 50-127).\<close>

definition access :: "string \<Rightarrow> SimState \<Rightarrow> SimState" where
  "access blockId s =
     (case findIndex (\<lambda>b. id_block b = blockId) (cache s) of
        Some hitIndex \<Rightarrow>
          s\<lparr>cache := touchHit (workload s) hitIndex (cache s),
            lastAction := ''HIT on Block '' @ blockId @ ''. Updated features.'',
            decisionMode := Mode_IDLE\<rparr>
      | None \<Rightarrow>
          (let newBlock = \<lparr>id_block = blockId, recency = 0, frequency = 1,
                           score = predictReuseProb 1 0 (workload s)\<rparr>
           in if length (cache s) < CAPACITY
              then s\<lparr>cache := ageAll (workload s) (cache s) @ [newBlock],
                     lastAction := ''MISS. Inserted Block '' @ blockId @ ''.'',
                     decisionMode := Mode_IDLE\<rparr>
              else evict blockId newBlock s))"

text \<open>The two workload buttons (lines 142-153) call \<^verbatim>\<open>setWorkload\<close>, which writes the
  workload cell and nothing else.\<close>

definition setWorkload :: "WorkloadType \<Rightarrow> SimState \<Rightarrow> SimState" where
  "setWorkload w s = s\<lparr>workload := w\<rparr>"

text \<open>What a user can do to the simulator: click a block button or a workload button.\<close>

datatype Event = Access string | SetWorkload WorkloadType

fun step :: "SimState \<Rightarrow> Event \<Rightarrow> SimState" where
  "step s (Access blockId) = access blockId s"
| "step s (SetWorkload w) = setWorkload w s"

definition run :: "SimState \<Rightarrow> Event list \<Rightarrow> SimState" where
  "run s es = foldl step s es"

subsection \<open>The states of the end-to-end scenario\<close>

text \<open>The states the simulator goes through on the accesses A, B, C, D, A, A, E from
  its initial state, written out; the lemmas \<open>access_scen1\<close> to \<open>access_scen7F\<close> below
  compute them from \<open>access\<close>.\<close>

definition scen1 :: SimState where \<comment> \<open>after the access A\<close>
  "scen1 =
     \<lparr>cache =
       [\<lparr>id_block = ''A'', recency = 0, frequency = 1, score = 0.4\<rparr>],
      workload = Hostile,
      lastAction = ''MISS. Inserted Block A.'',
      confidence = 0, decisionMode = Mode_IDLE\<rparr>"

definition scen2 :: SimState where \<comment> \<open>after A, B\<close>
  "scen2 =
     \<lparr>cache =
       [\<lparr>id_block = ''A'', recency = 1, frequency = 1, score = 0.4\<rparr>,
        \<lparr>id_block = ''B'', recency = 0, frequency = 1, score = 0.4\<rparr>],
      workload = Hostile,
      lastAction = ''MISS. Inserted Block B.'',
      confidence = 0, decisionMode = Mode_IDLE\<rparr>"

definition scen3 :: SimState where \<comment> \<open>after A, B, C\<close>
  "scen3 =
     \<lparr>cache =
       [\<lparr>id_block = ''A'', recency = 2, frequency = 1, score = 0.4\<rparr>,
        \<lparr>id_block = ''B'', recency = 1, frequency = 1, score = 0.4\<rparr>,
        \<lparr>id_block = ''C'', recency = 0, frequency = 1, score = 0.4\<rparr>],
      workload = Hostile,
      lastAction = ''MISS. Inserted Block C.'',
      confidence = 0, decisionMode = Mode_IDLE\<rparr>"

definition scen4 :: SimState where \<comment> \<open>after A, B, C, D\<close>
  "scen4 =
     \<lparr>cache =
       [\<lparr>id_block = ''A'', recency = 3, frequency = 1, score = 0.4\<rparr>,
        \<lparr>id_block = ''B'', recency = 2, frequency = 1, score = 0.4\<rparr>,
        \<lparr>id_block = ''C'', recency = 1, frequency = 1, score = 0.4\<rparr>,
        \<lparr>id_block = ''D'', recency = 0, frequency = 1, score = 0.4\<rparr>],
      workload = Hostile,
      lastAction = ''MISS. Inserted Block D.'',
      confidence = 0, decisionMode = Mode_IDLE\<rparr>"

definition scen5 :: SimState where \<comment> \<open>after A, B, C, D, A\<close>
  "scen5 =
     \<lparr>cache =
       [\<lparr>id_block = ''A'', recency = 0, frequency = 2, score = 0.95\<rparr>,
        \<lparr>id_block = ''B'', recency = 3, frequency = 1, score = 0.4\<rparr>,
        \<lparr>id_block = ''C'', recency = 2, frequency = 1, score = 0.4\<rparr>,
        \<lparr>id_block = ''D'', recency = 1, frequency = 1, score = 0.4\<rparr>],
      workload = Hostile,
      lastAction = ''HIT on Block A. Updated features.'',
      confidence = 0, decisionMode = Mode_IDLE\<rparr>"

definition scen6 :: SimState where \<comment> \<open>after A, B, C, D, A, A\<close>
  "scen6 =
     \<lparr>cache =
       [\<lparr>id_block = ''A'', recency = 0, frequency = 3, score = 0.95\<rparr>,
        \<lparr>id_block = ''B'', recency = 4, frequency = 1, score = 0.4\<rparr>,
        \<lparr>id_block = ''C'', recency = 3, frequency = 1, score = 0.4\<rparr>,
        \<lparr>id_block = ''D'', recency = 2, frequency = 1, score = 0.4\<rparr>],
      workload = Hostile,
      lastAction = ''HIT on Block A. Updated features.'',
      confidence = 0, decisionMode = Mode_IDLE\<rparr>"

definition scen7 :: SimState where \<comment> \<open>after A, B, C, D, A, A, E\<close>
  "scen7 =
     \<lparr>cache =
       [\<lparr>id_block = ''A'', recency = 1, frequency = 3, score = 0.95\<rparr>,
        \<lparr>id_block = ''E'', recency = 0, frequency = 1, score = 0.4\<rparr>,
        \<lparr>id_block = ''C'', recency = 4, frequency = 1, score = 0.4\<rparr>,
        \<lparr>id_block = ''D'', recency = 3, frequency = 1, score = 0.4\<rparr>],
      workload = Hostile,
      lastAction = ''Evicted B via ML (Confidence > 0.88). Inserted E.'',
      confidence = 0.95, decisionMode = Mode_ML\<rparr>"

definition scen7F :: SimState where \<comment> \<open>after A, B, C, D, A, A, a switch to Friendly, and E\<close>
  "scen7F =
     \<lparr>cache =
       [\<lparr>id_block = ''A'', recency = 1, frequency = 3, score = 0.55\<rparr>,
        \<lparr>id_block = ''E'', recency = 0, frequency = 1, score = 0.7\<rparr>,
        \<lparr>id_block = ''C'', recency = 4, frequency = 1, score = 0.46\<rparr>,
        \<lparr>id_block = ''D'', recency = 3, frequency = 1, score = 0.475\<rparr>],
      workload = Friendly,
      lastAction = ''Evicted B via LRU Fallback (Confidence Low). Inserted E.'',
      confidence = 0.55, decisionMode = Mode_LRU_FALLBACK\<rparr>"

section \<open>Auxiliary facts\<close>

subsection \<open>The Friendly score\<close>

lemma friendly_base: "predictReuseProb freq rec Friendly = 0.4 + 0.3 / (real rec + 1)"
proof -
  have "0.3 / (real rec + 1) \<le> (0.3::real)"
    by (simp add: divide_le_eq)
  then show ?thesis
    by (simp add: predictReuseProb_def mult.commute min_def)
qed

lemma friendly_le: "predictReuseProb freq rec Friendly \<le> 0.7"
  by (simp add: friendly_base divide_le_eq)

subsection \<open>Array helpers\<close>

lemma findIndex_Some:
  "findIndex P xs = Some i \<Longrightarrow> i < length xs \<and> P (xs ! i) \<and> (\<forall>j<i. \<not> P (xs ! j))"
proof (induction xs arbitrary: i)
  case Nil
  then show ?case by simp
next
  case (Cons x xs)
  show ?case
  proof (cases "P x")
    case True
    with Cons.prems show ?thesis by simp
  next
    case False
    with Cons.prems obtain k where k: "findIndex P xs = Some k" "i = Suc k"
      by auto
    from Cons.IH [OF k(1)] False k(2) show ?thesis
      by (auto simp: nth_Cons split: nat.splits)
  qed
qed

lemma findIndex_None: "findIndex P xs = None \<longleftrightarrow> (\<forall>x\<in>set xs. \<not> P x)"
  by (induction xs) auto

lemma findIndex_map: "findIndex P (map f xs) = findIndex (P \<circ> f) xs"
  by (induction xs) auto

lemma findIndex_ids:
  "map id_block c' = map id_block c \<Longrightarrow>
   findIndex (\<lambda>b. id_block b = x) c' = findIndex (\<lambda>b. id_block b = x) c"
proof -
  assume h: "map id_block c' = map id_block c"
  have "findIndex (\<lambda>b. id_block b = x) c' = findIndex (\<lambda>y. y = x) (map id_block c')"
    by (simp add: findIndex_map comp_def)
  also have "\<dots> = findIndex (\<lambda>b. id_block b = x) c"
    by (simp add: h findIndex_map comp_def)
  finally show ?thesis .
qed

lemma Math_max_eq:
  assumes "xs \<noteq> []"
  shows "Math_max xs = Max (set xs)"
proof (cases xs)
  case Nil
  with assms show ?thesis by simp
next
  case (Cons a as)
  then show ?thesis using Max.set_eq_fold [of a as] by simp
qed

lemma length_ageAll: "length (ageAll w c) = length c"
  by (simp add: ageAll_def)

lemma nth_ageAll:
  "j < length c \<Longrightarrow>
   ageAll w c ! j = (c ! j)\<lparr>recency := recency (c ! j) + 1,
                             score := predictReuseProb (frequency (c ! j)) (recency (c ! j) + 1) w\<rparr>"
  by (simp add: ageAll_def rescore_def)

lemma ids_ageAll: "map id_block (ageAll w c) = map id_block c"
  by (simp add: ageAll_def rescore_def)

lemma length_touchHit: "length (touchHit w i c) = length c"
  by (simp add: touchHit_def Let_def)

lemma nth_touchHit:
  assumes "j < length c"
  shows "touchHit w i c ! j =
           rescore w (if j = i then (c ! j)\<lparr>frequency := frequency (c ! j) + 1, recency := 0\<rparr>
                      else (c ! j)\<lparr>recency := recency (c ! j) + 1\<rparr>)"
  using assms
  by (simp add: touchHit_def Let_def nth_list_update nth_enumerate_eq rescore_def)

lemma ids_touchHit: "map id_block (touchHit w i c) = map id_block c"
  by (rule nth_equalityI) (simp_all add: length_touchHit nth_touchHit rescore_def)

subsection \<open>The two reductions\<close>

lemma fold_first_min:
  fixes k :: "nat \<Rightarrow> 'b::linorder"
  shows "(0 < n \<longrightarrow> fold (\<lambda>idx m. if k idx < k m then idx else m) [0..<n] 0 < n)
       \<and> (\<forall>j<n. k (fold (\<lambda>idx m. if k idx < k m then idx else m) [0..<n] 0) \<le> k j)
       \<and> (\<forall>j < fold (\<lambda>idx m. if k idx < k m then idx else m) [0..<n] 0.
             k (fold (\<lambda>idx m. if k idx < k m then idx else m) [0..<n] 0) < k j)"
proof (induction n)
  case 0
  show ?case by simp
next
  case (Suc n)
  define v where "v = fold (\<lambda>idx m. if k idx < k m then idx else m) [0..<n] 0"
  have step: "fold (\<lambda>idx m. if k idx < k m then idx else m) [0..<Suc n] 0
                = (if k n < k v then n else v)"
    by (simp add: v_def)
  from Suc.IH have ih: "0 < n \<longrightarrow> v < n" "\<forall>j<n. k v \<le> k j" "\<forall>j<v. k v < k j"
    by (simp_all add: v_def)
  have v0: "n = 0 \<Longrightarrow> v = 0"
    by (simp add: v_def)
  show ?case
  proof (cases "k n < k v")
    case True
    with ih show ?thesis
      unfolding step by (auto simp: less_Suc_eq intro: order.strict_trans2)
  next
    case False
    with ih v0 show ?thesis
      unfolding step by (cases "n = 0") (auto simp: less_Suc_eq)
  qed
qed

lemma fold_first_max:
  fixes k :: "nat \<Rightarrow> 'b::linorder"
  shows "(0 < n \<longrightarrow> fold (\<lambda>idx m. if k idx > k m then idx else m) [0..<n] 0 < n)
       \<and> (\<forall>j<n. k j \<le> k (fold (\<lambda>idx m. if k idx > k m then idx else m) [0..<n] 0))
       \<and> (\<forall>j < fold (\<lambda>idx m. if k idx > k m then idx else m) [0..<n] 0.
             k j < k (fold (\<lambda>idx m. if k idx > k m then idx else m) [0..<n] 0))"
proof (induction n)
  case 0
  show ?case by simp
next
  case (Suc n)
  define v where "v = fold (\<lambda>idx m. if k idx > k m then idx else m) [0..<n] 0"
  have step: "fold (\<lambda>idx m. if k idx > k m then idx else m) [0..<Suc n] 0
                = (if k n > k v then n else v)"
    by (simp add: v_def)
  from Suc.IH have ih: "0 < n \<longrightarrow> v < n" "\<forall>j<n. k j \<le> k v" "\<forall>j<v. k j < k v"
    by (simp_all add: v_def)
  have v0: "n = 0 \<Longrightarrow> v = 0"
    by (simp add: v_def)
  show ?case
  proof (cases "k n > k v")
    case True
    with ih show ?thesis
      unfolding step by (auto simp: less_Suc_eq intro: order.strict_trans1)
  next
    case False
    with ih v0 show ?thesis
      unfolding step by (cases "n = 0") (auto simp: less_Suc_eq)
  qed
qed

lemma mlVictimIndex_first_min:
  assumes "arr \<noteq> []"
  shows "mlVictimIndex arr < length arr"
    and "\<forall>j<length arr. score (arr ! mlVictimIndex arr) \<le> score (arr ! j)"
    and "\<forall>j<mlVictimIndex arr. score (arr ! mlVictimIndex arr) < score (arr ! j)"
  using assms fold_first_min [of "length arr" "\<lambda>i. score (arr ! i)"]
  by (simp_all add: mlVictimIndex_def)

lemma lruVictimIndex_first_max:
  assumes "arr \<noteq> []"
  shows "lruVictimIndex arr < length arr"
    and "\<forall>j<length arr. recency (arr ! j) \<le> recency (arr ! lruVictimIndex arr)"
    and "\<forall>j<lruVictimIndex arr. recency (arr ! j) < recency (arr ! lruVictimIndex arr)"
  using assms fold_first_max [of "length arr" "\<lambda>i. recency (arr ! i)"]
  by (simp_all add: lruVictimIndex_def)

subsection \<open>The three paths of an access\<close>

lemma workload_evict: "workload (evict x nb s) = workload s"
  by (simp add: evict_def Let_def split: prod.splits)

lemma workload_access: "workload (access x s) = workload s"
  by (simp add: access_def Let_def workload_evict split: option.splits)

lemma cache_evict:
  "cache (evict x nb s) =
     (ageAll (workload s) (cache s))
       [fst (selectVictim (Math_max (map score (ageAll (workload s) (cache s))))
                          (ageAll (workload s) (cache s))) := nb]"
  by (simp add: evict_def Let_def split: prod.splits)

lemma confidence_evict:
  "confidence (evict x nb s) = Math_max (map score (ageAll (workload s) (cache s)))"
  by (simp add: evict_def Let_def split: prod.splits)

lemma decisionMode_evict:
  "decisionMode (evict x nb s) =
     (if Math_max (map score (ageAll (workload s) (cache s))) > CONFIDENCE_THRESHOLD
      then Mode_ML else Mode_LRU_FALLBACK)"
  by (simp add: evict_def Let_def selectVictim_def split: prod.splits)

lemma length_cache_evict: "length (cache (evict x nb s)) = length (cache s)"
  by (simp add: cache_evict length_ageAll)

lemma access_hit:
  "findIndex (\<lambda>b. id_block b = x) (cache s) = Some i \<Longrightarrow>
   access x s = s\<lparr>cache := touchHit (workload s) i (cache s),
                  lastAction := ''HIT on Block '' @ x @ ''. Updated features.'',
                  decisionMode := Mode_IDLE\<rparr>"
  by (simp add: access_def)

lemma access_insert:
  "findIndex (\<lambda>b. id_block b = x) (cache s) = None \<Longrightarrow> length (cache s) < CAPACITY \<Longrightarrow>
   access x s = s\<lparr>cache := ageAll (workload s) (cache s) @
                     [\<lparr>id_block = x, recency = 0, frequency = 1,
                       score = predictReuseProb 1 0 (workload s)\<rparr>],
                  lastAction := ''MISS. Inserted Block '' @ x @ ''.'',
                  decisionMode := Mode_IDLE\<rparr>"
  by (simp add: access_def)

lemma access_evict:
  "findIndex (\<lambda>b. id_block b = x) (cache s) = None \<Longrightarrow> \<not> length (cache s) < CAPACITY \<Longrightarrow>
   access x s = evict x \<lparr>id_block = x, recency = 0, frequency = 1,
                         score = predictReuseProb 1 0 (workload s)\<rparr> s"
  by (simp add: access_def)

lemma access_cases:
  obtains (hit) i where "findIndex (\<lambda>b. id_block b = x) (cache s) = Some i"
  | (insert) "findIndex (\<lambda>b. id_block b = x) (cache s) = None" "length (cache s) < CAPACITY"
  | (evict) "findIndex (\<lambda>b. id_block b = x) (cache s) = None" "\<not> length (cache s) < CAPACITY"
  by (cases "findIndex (\<lambda>b. id_block b = x) (cache s)") auto

lemma length_cache_access:
  "length (cache (access x s)) =
     (if findIndex (\<lambda>b. id_block b = x) (cache s) = None \<and> length (cache s) < CAPACITY
      then length (cache s) + 1 else length (cache s))"
  by (cases x s rule: access_cases)
     (simp_all add: access_hit access_insert access_evict length_touchHit length_ageAll
        length_cache_evict)

lemma fresh_ageAll:
  "b \<in> set (ageAll w c) \<Longrightarrow> score b = predictReuseProb (frequency b) (recency b) w"
  by (auto simp: ageAll_def rescore_def)

lemma fresh_touchHit:
  assumes "b \<in> set (touchHit w i c)"
  shows "score b = predictReuseProb (frequency b) (recency b) w"
proof -
  from assms obtain j where "j < length c" "b = touchHit w i c ! j"
    by (auto simp: in_set_conv_nth length_touchHit)
  then show ?thesis
    by (simp add: nth_touchHit rescore_def)
qed

lemma fresh_access:
  assumes "b \<in> set (cache (access x s))"
  shows "score b = predictReuseProb (frequency b) (recency b) (workload s)"
proof (cases x s rule: access_cases)
  case (hit i)
  with assms show ?thesis by (auto simp: access_hit dest: fresh_touchHit)
next
  case insert
  with assms show ?thesis
    by (auto simp: access_insert dest: fresh_ageAll)
next
  case evict
  with assms have "b \<in> set (ageAll (workload s) (cache s)) \<or>
      b = \<lparr>id_block = x, recency = 0, frequency = 1, score = predictReuseProb 1 0 (workload s)\<rparr>"
    by (auto simp: access_evict cache_evict dest: set_update_subset_insert [THEN subsetD])
  then show ?thesis
    by (auto dest: fresh_ageAll)
qed

text \<open>Nothing in the result of an access depends on the scores stored before it.\<close>

lemma ageAll_forgets: "ageAll w (map (\<lambda>b. b\<lparr>score := g b\<rparr>) c) = ageAll w c"
  by (simp add: ageAll_def rescore_def)

lemma touchHit_forgets: "touchHit w i (map (\<lambda>b. b\<lparr>score := g b\<rparr>) c) = touchHit w i c"
proof (rule nth_equalityI)
  show "length (touchHit w i (map (\<lambda>b. b\<lparr>score := g b\<rparr>) c)) = length (touchHit w i c)"
    by (simp add: length_touchHit)
next
  fix j assume "j < length (touchHit w i (map (\<lambda>b. b\<lparr>score := g b\<rparr>) c))"
  then have "j < length c" by (simp add: length_touchHit)
  then show "touchHit w i (map (\<lambda>b. b\<lparr>score := g b\<rparr>) c) ! j = touchHit w i c ! j"
    by (simp add: nth_touchHit rescore_def)
qed

lemma findIndex_forgets:
  "findIndex (\<lambda>b. id_block b = x) (map (\<lambda>b. b\<lparr>score := g b\<rparr>) c)
     = findIndex (\<lambda>b. id_block b = x) c"
  by (rule findIndex_ids) simp

lemma access_forgets:
  "access x (s\<lparr>cache := map (\<lambda>b. b\<lparr>score := g b\<rparr>) (cache s)\<rparr>)
     = (access x s)"
  by (simp add: access_def evict_def Let_def findIndex_forgets ageAll_forgets touchHit_forgets
        split: option.splits)

subsection \<open>The scenario, step by step\<close>

lemma access_scen1: "access ''A'' initialState = scen1"
  by (simp add: initialState_def scen1_def access_def CAPACITY_def Let_def evict_def ageAll_def touchHit_def rescore_def
      predictReuseProb_def selectVictim_def CONFIDENCE_THRESHOLD_def mlVictimIndex_def
      lruVictimIndex_def setWorkload_def)

lemma access_scen2: "access ''B'' scen1 = scen2"
  by (simp add: scen1_def scen2_def access_def CAPACITY_def Let_def evict_def ageAll_def touchHit_def rescore_def
      predictReuseProb_def selectVictim_def CONFIDENCE_THRESHOLD_def mlVictimIndex_def
      lruVictimIndex_def setWorkload_def)

lemma access_scen3: "access ''C'' scen2 = scen3"
  by (simp add: scen2_def scen3_def access_def CAPACITY_def Let_def evict_def ageAll_def touchHit_def rescore_def
      predictReuseProb_def selectVictim_def CONFIDENCE_THRESHOLD_def mlVictimIndex_def
      lruVictimIndex_def setWorkload_def)

lemma access_scen4: "access ''D'' scen3 = scen4"
  by (simp add: scen3_def scen4_def access_def CAPACITY_def Let_def evict_def ageAll_def touchHit_def rescore_def
      predictReuseProb_def selectVictim_def CONFIDENCE_THRESHOLD_def mlVictimIndex_def
      lruVictimIndex_def setWorkload_def)

lemma access_scen5: "access ''A'' scen4 = scen5"
  by (simp add: scen4_def scen5_def access_def CAPACITY_def Let_def evict_def ageAll_def touchHit_def rescore_def
      predictReuseProb_def selectVictim_def CONFIDENCE_THRESHOLD_def mlVictimIndex_def
      lruVictimIndex_def setWorkload_def)

lemma access_scen6: "access ''A'' scen5 = scen6"
  by (simp add: scen5_def scen6_def access_def CAPACITY_def Let_def evict_def ageAll_def touchHit_def rescore_def
      predictReuseProb_def selectVictim_def CONFIDENCE_THRESHOLD_def mlVictimIndex_def
      lruVictimIndex_def setWorkload_def)

lemma access_scen7: "access ''E'' scen6 = scen7"
  by (simp add: scen6_def scen7_def access_def CAPACITY_def Let_def evict_def ageAll_def touchHit_def rescore_def
      predictReuseProb_def selectVictim_def CONFIDENCE_THRESHOLD_def mlVictimIndex_def
      lruVictimIndex_def setWorkload_def)

lemma access_scen7F: "access ''E'' (setWorkload Friendly scen6) = scen7F"
  by (simp add: scen6_def scen7F_def access_def CAPACITY_def Let_def evict_def ageAll_def touchHit_def rescore_def
      predictReuseProb_def selectVictim_def CONFIDENCE_THRESHOLD_def mlVictimIndex_def
      lruVictimIndex_def setWorkload_def)

lemma run_snoc: "run s (es @ [e]) = step (run s es) e"
  by (simp add: run_def)

lemma run_append: "run s (es @ es') = run (run s es) es'"
  by (simp add: run_def)

lemma run_scen4:
  "run initialState [Access ''A'', Access ''B'', Access ''C'', Access ''D''] = scen4"
  by (simp add: run_def access_scen1 access_scen2 access_scen3 access_scen4)

lemma run_scen6:
  "run initialState
     [Access ''A'', Access ''B'', Access ''C'', Access ''D'', Access ''A'', Access ''A''] = scen6"
  by (simp add: run_def access_scen1 access_scen2 access_scen3 access_scen4 access_scen5
        access_scen6)

lemma run_scen7:
  "run initialState
     [Access ''A'', Access ''B'', Access ''C'', Access ''D'', Access ''A'', Access ''A'',
      Access ''E''] = scen7"
  by (simp add: run_def access_scen1 access_scen2 access_scen3 access_scen4 access_scen5
        access_scen6 access_scen7)

subsection \<open>Lengths, ids and the decision of an access\<close>

lemma length_cache_step_ge: "length (cache s) \<le> length (cache (step s e))"
  by (cases e) (simp_all add: length_cache_access setWorkload_def)

lemma length_cache_step_le:
  "length (cache s) \<le> CAPACITY \<Longrightarrow> length (cache (step s e)) \<le> CAPACITY"
  by (cases e) (simp_all add: length_cache_access setWorkload_def)

lemma length_cache_run_ge: "length (cache s) \<le> length (cache (run s es))"
proof (induction es arbitrary: s)
  case Nil
  show ?case by (simp add: run_def)
next
  case (Cons e es)
  have "length (cache s) \<le> length (cache (step s e))"
    by (rule length_cache_step_ge)
  also have "\<dots> \<le> length (cache (run (step s e) es))"
    by (rule Cons.IH)
  finally show ?case by (simp add: run_def)
qed

lemma length_cache_run_le:
  "length (cache s) \<le> CAPACITY \<Longrightarrow> length (cache (run s es)) \<le> CAPACITY"
proof (induction es arbitrary: s)
  case Nil
  then show ?case by (simp add: run_def)
next
  case (Cons e es)
  from Cons.prems have "length (cache (step s e)) \<le> CAPACITY"
    by (rule length_cache_step_le)
  then have "length (cache (run (step s e) es)) \<le> CAPACITY"
    by (rule Cons.IH)
  then show ?case by (simp add: run_def)
qed

lemma selectVictim_lt:
  "nc \<noteq> [] \<Longrightarrow> fst (selectVictim m nc) < length nc"
  by (simp add: selectVictim_def mlVictimIndex_first_min(1) lruVictimIndex_first_max(1))

lemma ids_access_hit:
  assumes "findIndex (\<lambda>b. id_block b = x) (cache s) = Some i"
  shows "map id_block (cache (access x s)) = map id_block (cache s)"
  using assms by (simp add: access_hit ids_touchHit)

lemma ids_access_evict:
  assumes "findIndex (\<lambda>b. id_block b = x) (cache s) = None"
    and "CAPACITY \<le> length (cache s)"
  shows "\<exists>v<length (cache s).
           map id_block (cache (access x s)) = (map id_block (cache s))[v := x]"
proof -
  define nc where "nc = ageAll (workload s) (cache s)"
  define v where "v = fst (selectVictim (Math_max (map score nc)) nc)"
  from assms(2) have "nc \<noteq> []"
    by (auto simp: nc_def ageAll_def CAPACITY_def)
  then have "v < length (cache s)"
    using selectVictim_lt [of nc] by (simp add: v_def nc_def length_ageAll)
  moreover have "map id_block (cache (access x s)) = (map id_block (cache s))[v := x]"
    using assms
    by (simp add: access_evict cache_evict map_update ids_ageAll v_def nc_def)
  ultimately show ?thesis by blast
qed

lemma scores_ageAll:
  "map score (ageAll w c) = map (\<lambda>b. predictReuseProb (frequency b) (recency b + 1) w) c"
  by (simp add: ageAll_def rescore_def)

lemma frequencies_ageAll: "map frequency (ageAll w c) = map frequency c"
  by (simp add: ageAll_def rescore_def)

lemma confidence_access_evict:
  assumes "findIndex (\<lambda>b. id_block b = x) (cache s) = None"
    and "CAPACITY \<le> length (cache s)"
  shows "confidence (access x s)
           = Max ((\<lambda>b. predictReuseProb (frequency b) (recency b + 1) (workload s))
                    ` set (cache s))"
proof -
  from assms(2) have "cache s \<noteq> []"
    by (auto simp: CAPACITY_def)
  then have "Math_max (map score (ageAll (workload s) (cache s)))
               = Max (set (map score (ageAll (workload s) (cache s))))"
    by (simp add: Math_max_eq ageAll_def)
  with assms show ?thesis
    by (simp add: access_evict confidence_evict scores_ageAll)
qed

lemma decisionMode_access_evict:
  assumes "findIndex (\<lambda>b. id_block b = x) (cache s) = None"
    and "CAPACITY \<le> length (cache s)"
  shows "decisionMode (access x s)
           = (if confidence (access x s) > 0.88 then Mode_ML else Mode_LRU_FALLBACK)"
  using assms
  by (simp add: access_evict decisionMode_evict confidence_evict CONFIDENCE_THRESHOLD_def)

lemma decisionMode_access_other:
  "\<not> (findIndex (\<lambda>b. id_block b = x) (cache s) = None \<and> CAPACITY \<le> length (cache s))
   \<Longrightarrow> decisionMode (access x s) = Mode_IDLE"
  by (cases x s rule: access_cases) (simp_all add: access_hit access_insert)

subsection \<open>Hostile scores and the threshold\<close>

lemma hostile_above_threshold:
  "predictReuseProb freq rec Hostile > 0.88 \<longleftrightarrow> 2 \<le> freq"
  by (simp add: predictReuseProb_def)

lemma hostile_above_value:
  "predictReuseProb freq rec Hostile > 0.88 \<Longrightarrow> predictReuseProb freq rec Hostile = 0.95"
  by (simp add: predictReuseProb_def split: if_splits)

lemma hostile_confidence_above:
  assumes "workload s = Hostile"
    and "findIndex (\<lambda>b. id_block b = x) (cache s) = None"
    and "CAPACITY \<le> length (cache s)"
  shows "confidence (access x s) > 0.88 \<longleftrightarrow> (\<exists>b\<in>set (cache s). 2 \<le> frequency b)"
proof -
  from assms(3) have ne: "cache s \<noteq> []"
    by (auto simp: CAPACITY_def)
  have c: "confidence (access x s)
          = Max ((\<lambda>b. predictReuseProb (frequency b) (recency b + 1) Hostile) ` set (cache s))"
    using assms by (simp add: confidence_access_evict)
  have mx: "0.88 < Max ((\<lambda>b. predictReuseProb (frequency b) (recency b + 1) Hostile)
                              ` set (cache s))
      \<longleftrightarrow> (\<exists>a\<in>(\<lambda>b. predictReuseProb (frequency b) (recency b + 1) Hostile) ` set (cache s).
             0.88 < a)"
    using ne by (intro Max_gr_iff) simp_all
  have a: "(\<exists>a\<in>(\<lambda>b. predictReuseProb (frequency b) (recency b + 1) Hostile) ` set (cache s).
             0.88 < a) \<longleftrightarrow> (\<exists>b\<in>set (cache s). 2 \<le> frequency b)"
    by (simp only: bex_simps hostile_above_threshold)
  show ?thesis
    by (simp only: c mx a)
qed

section \<open>Binary64 rounding\<close>

subsection \<open>Rounding to the nearest integer and the exponent\<close>

lemma rne_err: "\<bar>of_int (rne a) - a\<bar> \<le> 1/2"
proof -
  have "of_int \<lfloor>a\<rfloor> \<le> a" "a < of_int \<lfloor>a\<rfloor> + 1"
    by linarith+
  then show ?thesis
    by (auto simp: rne_def Let_def)
qed

lemma rne_of_int: "rne (of_int n) = n"
  by (simp add: rne_def)

lemma rne_mono:
  assumes "a \<le> b"
  shows "rne a \<le> rne b"
proof (rule ccontr)
  assume "\<not> rne a \<le> rne b"
  then have "rne b + 1 \<le> rne a"
    by simp
  then have gap: "of_int (rne b) + 1 \<le> (of_int (rne a) :: real)"
    by linarith
  from rne_err [of a] rne_err [of b] gap assms have "a = b"
    by linarith
  with \<open>\<not> rne a \<le> rne b\<close> show False
    by simp
qed

lemma expo_bounds:
  assumes "0 < x"
  shows "2 powi \<lfloor>log 2 x\<rfloor> \<le> x" and "x < 2 powi (\<lfloor>log 2 x\<rfloor> + 1)"
proof -
  have "2 powr of_int \<lfloor>log 2 x\<rfloor> \<le> x"
    using le_log_iff [of 2 x "of_int \<lfloor>log 2 x\<rfloor>"] assms by simp
  then show "2 powi \<lfloor>log 2 x\<rfloor> \<le> x"
    by (simp add: powr_real_of_int')
  have "log 2 x < of_int (\<lfloor>log 2 x\<rfloor> + 1)"
    by linarith
  moreover have "log 2 x < of_int (\<lfloor>log 2 x\<rfloor> + 1)
                   \<longleftrightarrow> x < 2 powr of_int (\<lfloor>log 2 x\<rfloor> + 1)"
    using assms by (intro log_less_iff) simp_all
  ultimately have "x < 2 powr of_int (\<lfloor>log 2 x\<rfloor> + 1)"
    by blast
  then show "x < 2 powi (\<lfloor>log 2 x\<rfloor> + 1)"
    by (simp only: powr_real_of_int' [of 2, simplified])
qed

lemma expo_unique:
  assumes "0 < x" and "2 powi e \<le> x" and "x < 2 powi (e + 1)"
  shows "\<lfloor>log 2 x\<rfloor> = e"
proof (rule floor_unique)
  from assms(2) have "2 powr of_int e \<le> x"
    by (simp add: powr_real_of_int')
  then show "of_int e \<le> log 2 x"
    using le_log_iff [of 2 x "of_int e"] assms(1) by simp
  from assms(3) have "x < 2 powr of_int (e + 1)"
    by (simp only: powr_real_of_int' [of 2, simplified])
  then have "log 2 x < of_int (e + 1)"
    using log_less_iff [of 2 x "of_int (e + 1)"] assms(1) by simp
  then show "log 2 x < of_int e + 1"
    by simp
qed

lemma fl64_pos_eq:
  assumes "0 < x" and "2 powi e \<le> x" and "x < 2 powi (e + 1)"
  shows "fl64 x = of_int (rne (x * 2 powi (52 - e))) * 2 powi (e - 52)"
  using assms expo_unique [OF assms] by (simp add: fl64_def)

subsection \<open>Bounds, monotonicity and the error of one rounding\<close>

lemma fl64_pos_unfold:
  assumes "0 < x"
  shows "fl64 x = of_int (rne (x * 2 powi (52 - \<lfloor>log 2 x\<rfloor>))) * 2 powi (\<lfloor>log 2 x\<rfloor> - 52)"
  using assms by (simp add: fl64_def Let_def)

lemma powi_split:
  "(2::real) ^ 52 * 2 powi (e - 52) = 2 powi e"
  "(2::real) ^ 53 * 2 powi (e - 52) = 2 powi (e + 1)"
  "(2::real) powi e * 2 powi (52 - e) = 2 ^ 52"
  "(2::real) powi (e + 1) * 2 powi (52 - e) = 2 ^ 53"
proof -
  have "(2::real) powi (52 + (e - 52)) = 2 powi 52 * 2 powi (e - 52)"
    by (rule power_int_add) simp
  then show "(2::real) ^ 52 * 2 powi (e - 52) = 2 powi e"
    by simp
  have "(2::real) powi (53 + (e - 52)) = 2 powi 53 * 2 powi (e - 52)"
    by (rule power_int_add) simp
  moreover have "53 + (e - 52) = e + 1"
    by simp
  ultimately show "(2::real) ^ 53 * 2 powi (e - 52) = 2 powi (e + 1)"
    by (simp only: power_int_numeral)
  have "(2::real) powi (e + (52 - e)) = 2 powi e * 2 powi (52 - e)"
    by (rule power_int_add) simp
  then show "(2::real) powi e * 2 powi (52 - e) = 2 ^ 52"
    by simp
  have "(2::real) powi ((e + 1) + (52 - e)) = 2 powi (e + 1) * 2 powi (52 - e)"
    by (rule power_int_add) simp
  moreover have "(e + 1) + (52 - e) = 53"
    by simp
  ultimately show "(2::real) powi (e + 1) * 2 powi (52 - e) = 2 ^ 53"
    by (simp only: power_int_numeral)
qed

lemma scaled_bounds:
  assumes "0 < x"
  shows "2 ^ 52 \<le> x * 2 powi (52 - \<lfloor>log 2 x\<rfloor>)"
    and "x * 2 powi (52 - \<lfloor>log 2 x\<rfloor>) < 2 ^ 53"
proof -
  have pos: "(0::real) < 2 powi (52 - \<lfloor>log 2 x\<rfloor>)"
    by simp
  from expo_bounds(1) [OF assms]
  have "2 powi \<lfloor>log 2 x\<rfloor> * 2 powi (52 - \<lfloor>log 2 x\<rfloor>)
          \<le> x * 2 powi (52 - \<lfloor>log 2 x\<rfloor>)"
    using pos by (simp only: mult_le_cancel_right_pos)
  then show "2 ^ 52 \<le> x * 2 powi (52 - \<lfloor>log 2 x\<rfloor>)"
    by (simp only: powi_split)
  from expo_bounds(2) [OF assms]
  have "x * 2 powi (52 - \<lfloor>log 2 x\<rfloor>)
          < 2 powi (\<lfloor>log 2 x\<rfloor> + 1) * 2 powi (52 - \<lfloor>log 2 x\<rfloor>)"
    using pos by (simp only: mult_less_cancel_right_pos)
  then show "x * 2 powi (52 - \<lfloor>log 2 x\<rfloor>) < 2 ^ 53"
    by (simp only: powi_split)
qed

lemma rne_scaled_bounds:
  assumes "0 < x"
  shows "2 ^ 52 \<le> rne (x * 2 powi (52 - \<lfloor>log 2 x\<rfloor>))"
    and "rne (x * 2 powi (52 - \<lfloor>log 2 x\<rfloor>)) \<le> 2 ^ 53"
proof -
  have "rne (of_int (2 ^ 52)) \<le> rne (x * 2 powi (52 - \<lfloor>log 2 x\<rfloor>))"
    using scaled_bounds(1) [OF assms] by (intro rne_mono) simp
  then show "2 ^ 52 \<le> rne (x * 2 powi (52 - \<lfloor>log 2 x\<rfloor>))"
    by (simp only: rne_of_int)
  have "rne (x * 2 powi (52 - \<lfloor>log 2 x\<rfloor>)) \<le> rne (of_int (2 ^ 53))"
    using scaled_bounds(2) [OF assms] by (intro rne_mono) simp
  then show "rne (x * 2 powi (52 - \<lfloor>log 2 x\<rfloor>)) \<le> 2 ^ 53"
    by (simp only: rne_of_int)
qed

lemma fl64_bounds:
  assumes "0 < x"
  shows "2 powi \<lfloor>log 2 x\<rfloor> \<le> fl64 x" and "fl64 x \<le> 2 powi (\<lfloor>log 2 x\<rfloor> + 1)"
proof -
  define e where "e = \<lfloor>log 2 x\<rfloor>"
  define m where "m = rne (x * 2 powi (52 - e))"
  have fl: "fl64 x = of_int m * 2 powi (e - 52)"
    using assms by (simp add: fl64_pos_unfold m_def e_def)
  have m: "2 ^ 52 \<le> m" "m \<le> 2 ^ 53"
    using rne_scaled_bounds [OF assms] by (simp_all add: m_def e_def)
  have pos: "(0::real) < 2 powi (e - 52)"
    by simp
  note a = powi_split(1) [of e]
  note b = powi_split(2) [of e]
  from m(1) have "(2::real) ^ 52 \<le> of_int m"
    by (metis of_int_le_iff of_int_numeral of_int_power)
  then have "(2::real) ^ 52 * 2 powi (e - 52) \<le> of_int m * 2 powi (e - 52)"
    using pos by (simp only: mult_le_cancel_right_pos)
  then show "2 powi \<lfloor>log 2 x\<rfloor> \<le> fl64 x"
    unfolding e_def [symmetric] by (simp only: a fl)
  from m(2) have "of_int m \<le> (2::real) ^ 53"
    by (metis of_int_le_iff of_int_numeral of_int_power)
  then have "of_int m * 2 powi (e - 52) \<le> (2::real) ^ 53 * 2 powi (e - 52)"
    using pos by (simp only: mult_le_cancel_right_pos)
  then show "fl64 x \<le> 2 powi (\<lfloor>log 2 x\<rfloor> + 1)"
    unfolding e_def [symmetric] by (simp only: b fl)
qed

lemma fl64_pos: "0 < x \<Longrightarrow> 0 < fl64 x"
  using fl64_bounds(1) [of x] zero_less_power_int [of "2::real" "\<lfloor>log 2 x\<rfloor>"]
  by linarith

lemma fl64_mono:
  assumes "0 < x" and "x \<le> y"
  shows "fl64 x \<le> fl64 y"
proof -
  from assms have y: "0 < y"
    by simp
  define ex where "ex = \<lfloor>log 2 x\<rfloor>"
  define ey where "ey = \<lfloor>log 2 y\<rfloor>"
  have "log 2 x \<le> log 2 y"
    using assms by simp
  then have le: "ex \<le> ey"
    unfolding ex_def ey_def by (rule floor_mono)
  show ?thesis
  proof (cases "ex = ey")
    case True
    have "x * 2 powi (52 - ex) \<le> y * 2 powi (52 - ex)"
      using assms(2) by (simp add: mult_right_mono)
    then have "rne (x * 2 powi (52 - ex)) \<le> rne (y * 2 powi (52 - ex))"
      by (rule rne_mono)
    then have "(of_int (rne (x * 2 powi (52 - ex))) :: real) \<le> of_int (rne (y * 2 powi (52 - ex)))"
      by simp
    then have "of_int (rne (x * 2 powi (52 - ex))) * 2 powi (ex - 52)
                 \<le> of_int (rne (y * 2 powi (52 - ex))) * (2::real) powi (ex - 52)"
      by (simp add: mult_right_mono)
    then show ?thesis
      using assms(1) y True by (simp add: fl64_pos_unfold ex_def ey_def)
  next
    case False
    with le have "ex + 1 \<le> ey"
      by simp
    then have "(2::real) powi (ex + 1) \<le> 2 powi ey"
      by (intro power_int_increasing) simp_all
    with fl64_bounds(2) [OF assms(1)] fl64_bounds(1) [OF y] show ?thesis
      unfolding ex_def ey_def by linarith
  qed
qed

lemma fl64_err:
  assumes "0 < x"
  shows "\<bar>fl64 x - x\<bar> \<le> x / 2 ^ 53"
proof -
  define e where "e = \<lfloor>log 2 x\<rfloor>"
  define s where "s = x * 2 powi (52 - e)"
  have pos: "(0::real) < 2 powi (e - 52)"
    by simp
  have inv: "(2::real) powi (52 - e) * 2 powi (e - 52) = 1"
    by (simp flip: power_int_add)
  have x: "x = s * 2 powi (e - 52)"
    using inv by (simp add: s_def mult.assoc)
  have fl: "fl64 x = of_int (rne s) * 2 powi (e - 52)"
    using assms by (simp add: fl64_pos_unfold s_def e_def)
  have "fl64 x - x = (of_int (rne s) - s) * 2 powi (e - 52)"
    by (simp only: fl x [symmetric] left_diff_distrib)
  then have "\<bar>fl64 x - x\<bar> = \<bar>of_int (rne s) - s\<bar> * 2 powi (e - 52)"
    using pos by (simp add: abs_mult)
  also have "\<dots> \<le> 1/2 * 2 powi (e - 52)"
    using rne_err [of s] pos by (simp only: mult_le_cancel_right_pos)
  also have "\<dots> = 2 powi e / 2 ^ 53"
    using power_int_diff [of "2::real" e 52] by simp
  also have "\<dots> \<le> x / 2 ^ 53"
    using expo_bounds(1) [OF assms] by (simp add: e_def divide_right_mono)
  finally show ?thesis .
qed

subsection \<open>Literals and the Friendly score\<close>

lemma fl64_eval:
  assumes "0 < x" and "2 powi e \<le> x" and "x < 2 powi (e + 1)"
    and "rne (x * 2 powi (52 - e)) = m" and "of_int m * 2 powi (e - 52) = y"
  shows "fl64 x = y"
  using fl64_pos_eq [OF assms(1-3)] assms(4,5) by simp

lemma fl64_le:
  assumes "0 < x"
  shows "fl64 x \<le> x * (1 + 1 / 2 ^ 53)"
proof -
  have "x * (1 + 1 / 2 ^ 53) = x + x / 2 ^ 53"
    by (simp add: distrib_left)
  then show ?thesis
    using fl64_err [OF assms] by linarith
qed

lemma fl64_ge:
  assumes "0 < x"
  shows "x * (1 - 1 / 2 ^ 53) \<le> fl64 x"
proof -
  have "x * (1 - 1 / 2 ^ 53) = x - x / 2 ^ 53"
    by (simp add: right_diff_distrib)
  then show ?thesis
    using fl64_err [OF assms] by linarith
qed

lemma lit_pos: "(0::real) < fl64 0.3" "(0::real) < fl64 0.4"
  by (rule fl64_pos, simp)+

lemma lit_04: "fl64 0.4 = 7205759403792794 / 2 ^ 54"
  by (rule fl64_eval [where e = "-2" and m = 7205759403792794]) (simp_all add: rne_def)

lemma lit_03: "fl64 0.3 = 5404319552844595 / 2 ^ 54"
  by (rule fl64_eval [where e = "-2" and m = 5404319552844595]) (simp_all add: rne_def)

lemma lit_085: "fl64 0.85 = 7656119366529843 / 2 ^ 53"
  by (rule fl64_eval [where e = "-1" and m = 7656119366529843]) (simp_all add: rne_def)

lemma lit_088: "fl64 0.88 = 7926335344172073 / 2 ^ 53"
  by (rule fl64_eval [where e = "-1" and m = 7926335344172073]) (simp_all add: rne_def)

lemma lit_095: "fl64 0.95 = 8556839292003942 / 2 ^ 53"
  by (rule fl64_eval [where e = "-1" and m = 8556839292003942]) (simp_all add: rne_def)

lemma lit_01: "fl64 0.1 = 7205759403792794 / 2 ^ 56"
  by (rule fl64_eval [where e = "-4" and m = 7205759403792794]) (simp_all add: rne_def)

lemma lit_07: "fl64 0.7 = 6305039478318694 / 2 ^ 53"
  by (rule fl64_eval [where e = "-1" and m = 6305039478318694]) (simp_all add: rne_def)

lemma fl64_lit_04_again: "fl64 (7205759403792794 / 2 ^ 54) = 7205759403792794 / 2 ^ 54"
  by (rule fl64_eval [where e = "-2" and m = 7205759403792794]) (simp_all add: rne_def)

text \<open>The Friendly score before the cap, as a function of the recency.\<close>

lemma friendly64_pos:
  shows "0 < fl64 (real r + 1)"
    and "0 < fl64 (1 / fl64 (real r + 1))"
    and "0 < fl64 (fl64 (1 / fl64 (real r + 1)) * fl64 0.3)"
proof -
  show a: "0 < fl64 (real r + 1)"
    by (rule fl64_pos) simp
  then show q: "0 < fl64 (1 / fl64 (real r + 1))"
    by (intro fl64_pos) simp
  from q lit_pos(1) have "0 < fl64 (1 / fl64 (real r + 1)) * fl64 0.3"
    by (rule mult_pos_pos)
  then show "0 < fl64 (fl64 (1 / fl64 (real r + 1)) * fl64 0.3)"
    by (rule fl64_pos)
qed

lemma friendly64_antimono:
  assumes "r \<le> r'"
  shows "fl64 (fl64 0.4 + fl64 (fl64 (1 / fl64 (real r' + 1)) * fl64 0.3))
           \<le> fl64 (fl64 0.4 + fl64 (fl64 (1 / fl64 (real r + 1)) * fl64 0.3))"
proof -
  note c3 = lit_pos(1) and c4 = lit_pos(2)
  have a: "fl64 (real r + 1) \<le> fl64 (real r' + 1)"
    using assms by (intro fl64_mono) simp_all
  have "1 / fl64 (real r' + 1) \<le> 1 / fl64 (real r + 1)"
    using a friendly64_pos(1) [of r] by (intro divide_left_mono) (simp_all add: friendly64_pos)
  then have q: "fl64 (1 / fl64 (real r' + 1)) \<le> fl64 (1 / fl64 (real r + 1))"
    using friendly64_pos(1) [of r'] by (intro fl64_mono) simp_all
  then have "fl64 (1 / fl64 (real r' + 1)) * fl64 0.3 \<le> fl64 (1 / fl64 (real r + 1)) * fl64 0.3"
    using c3 by (simp add: mult_right_mono)
  then have p: "fl64 (fl64 (1 / fl64 (real r' + 1)) * fl64 0.3)
                  \<le> fl64 (fl64 (1 / fl64 (real r + 1)) * fl64 0.3)"
    using mult_pos_pos [OF friendly64_pos(2) [of r'] c3] by (intro fl64_mono)
  show ?thesis
  proof (rule fl64_mono)
    show "0 < fl64 0.4 + fl64 (fl64 (1 / fl64 (real r' + 1)) * fl64 0.3)"
      using c4 friendly64_pos(3) [of r'] by linarith
    show "fl64 0.4 + fl64 (fl64 (1 / fl64 (real r' + 1)) * fl64 0.3)
            \<le> fl64 0.4 + fl64 (fl64 (1 / fl64 (real r + 1)) * fl64 0.3)"
      using p by simp
  qed
qed

lemma friendly64_at_0:
  "fl64 (fl64 0.4 + fl64 (fl64 (1 / fl64 (real (0::nat) + 1)) * fl64 0.3)) = fl64 0.7"
proof -
  have a: "fl64 (real (0::nat) + 1) = 1"
    by (rule fl64_eval [where e = 0 and m = "2 ^ 52"]) (simp_all add: rne_def)
  have q: "fl64 (1 / 1) = 1"
    by (rule fl64_eval [where e = 0 and m = "2 ^ 52"]) (simp_all add: rne_def)
  have p: "fl64 (1 * (5404319552844595 / 2 ^ 54)) = 5404319552844595 / 2 ^ 54"
    by (rule fl64_eval [where e = "-2" and m = 5404319552844595]) (simp_all add: rne_def)
  have s: "fl64 (7205759403792794 / 2 ^ 54 + 5404319552844595 / 2 ^ 54) = 6305039478318694 / 2 ^ 53"
    by (rule fl64_eval [where e = "-1" and m = 6305039478318694]) (simp_all add: rne_def)
  show ?thesis
    by (simp only: a q lit_03 lit_04 p s lit_07)
qed

lemma friendly64_bounds:
  shows "fl64 0.4 \<le> fl64 (fl64 0.4 + fl64 (fl64 (1 / fl64 (real r + 1)) * fl64 0.3))"
    and "fl64 (fl64 0.4 + fl64 (fl64 (1 / fl64 (real r + 1)) * fl64 0.3)) \<le> fl64 0.7"
proof -
  note c4 = lit_pos(2)
  have "fl64 (fl64 0.4) \<le> fl64 (fl64 0.4 + fl64 (fl64 (1 / fl64 (real r + 1)) * fl64 0.3))"
    using c4 friendly64_pos(3) [of r] by (intro fl64_mono) simp_all
  moreover have "fl64 (fl64 0.4) = fl64 0.4"
    by (simp only: lit_04 fl64_lit_04_again)
  ultimately show "fl64 0.4 \<le> fl64 (fl64 0.4 + fl64 (fl64 (1 / fl64 (real r + 1)) * fl64 0.3))"
    by simp
  have "fl64 (fl64 0.4 + fl64 (fl64 (1 / fl64 (real r + 1)) * fl64 0.3))
          \<le> fl64 (fl64 0.4 + fl64 (fl64 (1 / fl64 (real (0::nat) + 1)) * fl64 0.3))"
    by (rule friendly64_antimono) simp
  then show "fl64 (fl64 0.4 + fl64 (fl64 (1 / fl64 (real r + 1)) * fl64 0.3)) \<le> fl64 0.7"
    by (simp only: friendly64_at_0)
qed

lemma friendly64_cap:
  "min (fl64 0.85) (fl64 (fl64 0.4 + fl64 (fl64 (1 / fl64 (real r + 1)) * fl64 0.3)))
     = fl64 (fl64 0.4 + fl64 (fl64 (1 / fl64 (real r + 1)) * fl64 0.3))"
proof (rule min_absorb2)
  have "fl64 0.7 \<le> fl64 0.85"
    unfolding lit_07 lit_085 by simp
  with friendly64_bounds(2) [of r]
  show "fl64 (fl64 0.4 + fl64 (fl64 (1 / fl64 (real r + 1)) * fl64 0.3)) \<le> fl64 0.85"
    by linarith
qed

lemma predictReuseProb64_friendly:
  "predictReuseProb64 freq rec Friendly
     = fl64 (fl64 0.4 + fl64 (fl64 (1 / fl64 (real rec + 1)) * fl64 0.3))"
  unfolding predictReuseProb64_def Let_def friendly64_cap by simp

subsection \<open>The distance to the exact score\<close>

lemma friendly64_err:
  "\<bar>fl64 (fl64 0.4 + fl64 (fl64 (1 / fl64 (real r + 1)) * fl64 0.3))
      - (0.4 + 0.3 / (real r + 1))\<bar> \<le> 1 / 2 ^ 50"
proof -
  define u :: real where "u = 1 / 2 ^ 53"
  define n where "n = real r + 1"
  define X where "X = 1 / n"
  define a where "a = fl64 n"
  define q where "q = fl64 (1 / a)"
  define c3 :: real where "c3 = fl64 0.3"
  define c4 :: real where "c4 = fl64 0.4"
  define p where "p = fl64 (q * c3)"
  define s where "s = fl64 (c4 + p)"
  define Khi where "Khi = (1 + u) / (1 - u) * c3 * (1 + u)"
  define Klo where "Klo = (1 - u) / (1 + u) * c3 * (1 - u)"
  have u: "0 < u" "u < 1"
    by (simp_all add: u_def)
  have n: "1 \<le> n"
    by (simp add: n_def)
  have X: "0 < X" "X \<le> 1"
    using n by (simp_all add: X_def)
  have c3v: "c3 = 5404319552844595 / 2 ^ 54" and c4v: "c4 = 7205759403792794 / 2 ^ 54"
    unfolding c3_def c4_def by (rule lit_03, rule lit_04)
  have c3: "0 < c3" and c4: "0 < c4"
    by (simp_all add: c3v c4v)
  have a: "0 < a"
    unfolding a_def n_def by (rule friendly64_pos)
  have q: "0 < q"
    unfolding q_def a_def n_def by (rule friendly64_pos)
  have p: "0 < p"
    unfolding p_def q_def a_def n_def c3_def by (rule friendly64_pos)
  have a_lo: "n * (1 - u) \<le> a" and a_hi: "a \<le> n * (1 + u)"
    unfolding a_def u_def using n by (intro fl64_ge fl64_le; simp)+
  have nlo: "0 < n * (1 - u)"
    using n u by simp
  have inv_hi: "1 / a \<le> X / (1 - u)"
  proof -
    have "1 / a \<le> 1 / (n * (1 - u))"
      using a_lo nlo a by (intro divide_left_mono) simp_all
    also have "\<dots> = X / (1 - u)"
      by (simp add: X_def)
    finally show ?thesis .
  qed
  have inv_lo: "X / (1 + u) \<le> 1 / a"
  proof -
    have "1 / (n * (1 + u)) \<le> 1 / a"
      using a_hi a n u by (intro divide_left_mono) simp_all
    moreover have "1 / (n * (1 + u)) = X / (1 + u)"
      by (simp add: X_def)
    ultimately show ?thesis by simp
  qed
  have q_hi: "q \<le> X * ((1 + u) / (1 - u))"
  proof -
    have "q \<le> 1 / a * (1 + u)"
      unfolding q_def u_def using a by (intro fl64_le) simp
    also have "\<dots> \<le> X / (1 - u) * (1 + u)"
      using inv_hi u by (intro mult_right_mono) simp_all
    finally show ?thesis by simp
  qed
  have q_lo: "X * ((1 - u) / (1 + u)) \<le> q"
  proof -
    have "X / (1 + u) * (1 - u) \<le> 1 / a * (1 - u)"
      using inv_lo u by (intro mult_right_mono) simp_all
    also have "\<dots> \<le> q"
      unfolding q_def u_def using a by (intro fl64_ge) simp
    finally show ?thesis by simp
  qed
  have p_hi: "p \<le> X * Khi"
  proof -
    have "p \<le> q * c3 * (1 + u)"
      unfolding p_def u_def using q c3 by (intro fl64_le mult_pos_pos)
    also have "\<dots> \<le> X * ((1 + u) / (1 - u)) * c3 * (1 + u)"
      using q_hi c3 u by (intro mult_right_mono) simp_all
    finally show ?thesis by (simp add: Khi_def mult.assoc)
  qed
  have p_lo: "X * Klo \<le> p"
  proof -
    have "X * ((1 - u) / (1 + u)) * c3 * (1 - u) \<le> q * c3 * (1 - u)"
      using q_lo c3 u by (intro mult_right_mono) simp_all
    also have "\<dots> \<le> p"
      unfolding p_def u_def using q c3 by (intro fl64_ge mult_pos_pos)
    finally show ?thesis by (simp add: Klo_def mult.assoc)
  qed
  have s_hi: "s \<le> (c4 + X * Khi) * (1 + u)"
  proof -
    have "s \<le> (c4 + p) * (1 + u)"
      unfolding s_def u_def using c4 p by (intro fl64_le) simp
    also have "\<dots> \<le> (c4 + X * Khi) * (1 + u)"
      using p_hi u by (intro mult_right_mono) simp_all
    finally show ?thesis .
  qed
  have s_lo: "(c4 + X * Klo) * (1 - u) \<le> s"
  proof -
    have "(c4 + X * Klo) * (1 - u) \<le> (c4 + p) * (1 - u)"
      using p_lo u by (intro mult_right_mono) simp_all
    also have "\<dots> \<le> s"
      unfolding s_def u_def using c4 p by (intro fl64_ge) simp
    finally show ?thesis .
  qed
  define Dhi where "Dhi = Khi * (1 + u) - 0.3"
  define Dlo where "Dlo = 0.3 - Klo * (1 - u)"
  have Dhi: "0 \<le> Dhi" "c4 * (1 + u) + Dhi \<le> 0.4 + 1 / 2 ^ 50"
    by (simp_all add: Dhi_def Khi_def c3v c4v u_def)
  have Dlo: "0 \<le> Dlo" "0.4 - 1 / 2 ^ 50 \<le> c4 * (1 - u) - Dlo"
    by (simp_all add: Dlo_def Klo_def c3v c4v u_def)
  have "X * Dhi \<le> 1 * Dhi"
    using X Dhi(1) by (intro mult_right_mono) simp_all
  then have xh: "X * (Khi * (1 + u)) \<le> 0.3 * X + Dhi"
    by (simp add: Dhi_def algebra_simps)
  have "X * Dlo \<le> 1 * Dlo"
    using X Dlo(1) by (intro mult_right_mono) simp_all
  then have xl: "0.3 * X - Dlo \<le> X * (Klo * (1 - u))"
    by (simp add: Dlo_def algebra_simps)
  have idh: "(c4 + X * Khi) * (1 + u) = c4 * (1 + u) + X * (Khi * (1 + u))"
    by (simp add: algebra_simps)
  have idl: "(c4 + X * Klo) * (1 - u) = c4 * (1 - u) + X * (Klo * (1 - u))"
    by (simp add: algebra_simps)
  have tgt: "0.3 / (real r + 1) = 0.3 * X"
    by (simp add: X_def n_def)
  have "\<bar>s - (0.4 + 0.3 * X)\<bar> \<le> 1 / 2 ^ 50"
    using s_hi s_lo xh xl Dhi(2) Dlo(2) unfolding idh idl by linarith
  then show ?thesis
    unfolding tgt s_def p_def q_def a_def n_def c3_def c4_def .
qed

subsection \<open>Scores at given recencies, and the exact score against the binary64 score\<close>

lemma friendly64_eval:
  assumes "fl64 (real r + 1) = a" and "fl64 (1 / a) = q"
    and "fl64 (q * (5404319552844595 / 2 ^ 54)) = p"
    and "fl64 (7205759403792794 / 2 ^ 54 + p) = s"
  shows "predictReuseProb64 f r Friendly = s"
  by (simp only: predictReuseProb64_friendly lit_03 lit_04 assms)

lemma score64_at_0: "predictReuseProb64 f 0 Friendly = fl64 0.7"
  by (simp only: predictReuseProb64_friendly friendly64_at_0)

lemma score64_at_1: "predictReuseProb64 f (1::nat) Friendly = 4953959590107546 / 2 ^ 53"
proof (rule friendly64_eval)
  show "fl64 (real (1::nat) + 1) = 2"
    by (rule fl64_eval [where e = "1" and m = "4503599627370496"]) (simp_all add: rne_def)
  show "fl64 (1 / 2) = 4503599627370496 / 2 ^ 53"
    by (rule fl64_eval [where e = "-1" and m = "4503599627370496"]) (simp_all add: rne_def)
  show "fl64 ((4503599627370496 / 2 ^ 53) * (5404319552844595 / 2 ^ 54)) = 5404319552844595 / 2 ^ 55"
    by (rule fl64_eval [where e = "-3" and m = "5404319552844595"]) (simp_all add: rne_def)
  show "fl64 (7205759403792794 / 2 ^ 54 + 5404319552844595 / 2 ^ 55) = 4953959590107546 / 2 ^ 53"
    by (rule fl64_eval [where e = "-1" and m = "4953959590107546"]) (simp_all add: rne_def)
qed

lemma score64_at_3: "predictReuseProb64 f (3::nat) Friendly = 8556839292003943 / 2 ^ 54"
proof (rule friendly64_eval)
  show "fl64 (real (3::nat) + 1) = 4"
    by (rule fl64_eval [where e = "2" and m = "4503599627370496"]) (simp_all add: rne_def)
  show "fl64 (1 / 4) = 4503599627370496 / 2 ^ 54"
    by (rule fl64_eval [where e = "-2" and m = "4503599627370496"]) (simp_all add: rne_def)
  show "fl64 ((4503599627370496 / 2 ^ 54) * (5404319552844595 / 2 ^ 54)) = 5404319552844595 / 2 ^ 56"
    by (rule fl64_eval [where e = "-4" and m = "5404319552844595"]) (simp_all add: rne_def)
  show "fl64 (7205759403792794 / 2 ^ 54 + 5404319552844595 / 2 ^ 56) = 8556839292003943 / 2 ^ 54"
    by (rule fl64_eval [where e = "-2" and m = "8556839292003943"]) (simp_all add: rne_def)
qed

lemma score64_at_12: "predictReuseProb64 f (12::nat) Friendly = 7621476292473148 / 2 ^ 54"
proof (rule friendly64_eval)
  show "fl64 (real (12::nat) + 1) = 13"
    by (rule fl64_eval [where e = "3" and m = "7318349394477056"]) (simp_all add: rne_def)
  show "fl64 (1 / 13) = 5542891849071380 / 2 ^ 56"
    by (rule fl64_eval [where e = "-4" and m = "5542891849071380"]) (simp_all add: rne_def)
  show "fl64 ((5542891849071380 / 2 ^ 56) * (5404319552844595 / 2 ^ 54)) = 6651470218885656 / 2 ^ 58"
    by (rule fl64_eval [where e = "-6" and m = "6651470218885656"]) (simp_all add: rne_def)
  show "fl64 (7205759403792794 / 2 ^ 54 + 6651470218885656 / 2 ^ 58) = 7621476292473148 / 2 ^ 54"
    by (rule fl64_eval [where e = "-2" and m = "7621476292473148"]) (simp_all add: rne_def)
qed

lemma score64_at_73515112: "predictReuseProb64 f (73515112::nat) Friendly = 7205759477305835 / 2 ^ 54"
proof (rule friendly64_eval)
  show "fl64 (real (73515112::nat) + 1) = 73515113"
    by (rule fl64_eval [where e = "26" and m = "4933515720261632"]) (simp_all add: rne_def)
  show "fl64 (1 / 73515113) = 8222294507080668 / 2 ^ 79"
    by (rule fl64_eval [where e = "-27" and m = "8222294507080668"]) (simp_all add: rne_def)
  show "fl64 ((8222294507080668 / 2 ^ 79) * (5404319552844595 / 2 ^ 54)) = 4933376704248401 / 2 ^ 80"
    by (rule fl64_eval [where e = "-28" and m = "4933376704248401"]) (simp_all add: rne_def)
  show "fl64 (7205759403792794 / 2 ^ 54 + 4933376704248401 / 2 ^ 80) = 7205759477305835 / 2 ^ 54"
    by (rule fl64_eval [where e = "-2" and m = "7205759477305835"]) (simp_all add: rne_def)
qed

lemma score64_at_73515113: "predictReuseProb64 f (73515113::nat) Friendly = 7205759477305835 / 2 ^ 54"
proof (rule friendly64_eval)
  show "fl64 (real (73515113::nat) + 1) = 73515114"
    by (rule fl64_eval [where e = "26" and m = "4933515787370496"]) (simp_all add: rne_def)
  show "fl64 (1 / 73515114) = 8222294395235714 / 2 ^ 79"
    by (rule fl64_eval [where e = "-27" and m = "8222294395235714"]) (simp_all add: rne_def)
  show "fl64 ((8222294395235714 / 2 ^ 79) * (5404319552844595 / 2 ^ 54)) = 4933376637141428 / 2 ^ 80"
    by (rule fl64_eval [where e = "-28" and m = "4933376637141428"]) (simp_all add: rne_def)
  show "fl64 (7205759403792794 / 2 ^ 54 + 4933376637141428 / 2 ^ 80) = 7205759477305835 / 2 ^ 54"
    by (rule fl64_eval [where e = "-2" and m = "7205759477305835"]) (simp_all add: rne_def)
qed

lemma score64_at_2_54: "predictReuseProb64 f (18014398509481984::nat) Friendly = 7205759403792794 / 2 ^ 54"
proof (rule friendly64_eval)
  show "fl64 (real (18014398509481984::nat) + 1) = 18014398509481984"
    by (rule fl64_eval [where e = "54" and m = "4503599627370496"]) (simp_all add: rne_def)
  show "fl64 (1 / 18014398509481984) = 4503599627370496 / 2 ^ 106"
    by (rule fl64_eval [where e = "-54" and m = "4503599627370496"]) (simp_all add: rne_def)
  show "fl64 ((4503599627370496 / 2 ^ 106) * (5404319552844595 / 2 ^ 54)) = 5404319552844595 / 2 ^ 108"
    by (rule fl64_eval [where e = "-56" and m = "5404319552844595"]) (simp_all add: rne_def)
  show "fl64 (7205759403792794 / 2 ^ 54 + 5404319552844595 / 2 ^ 108) = 7205759403792794 / 2 ^ 54"
    by (rule fl64_eval [where e = "-2" and m = "7205759403792794"]) (simp_all add: rne_def)
qed

lemma claimed64_at_12:
  "fl64 (fl64 0.4 + fl64 (fl64 0.3 / fl64 (real (12::nat) + 1))) = 7621476292473147 / 2 ^ 54"
proof -
  have a: "fl64 (real (12::nat) + 1) = 13"
    by (rule fl64_eval [where e = "3" and m = "7318349394477056"]) (simp_all add: rne_def)
  have d: "fl64 (5404319552844595 / 2 ^ 54 / 13) = 6651470218885655 / 2 ^ 58"
    by (rule fl64_eval [where e = "-6" and m = "6651470218885655"]) (simp_all add: rne_def)
  have s: "fl64 (7205759403792794 / 2 ^ 54 + 6651470218885655 / 2 ^ 58) = 7621476292473147 / 2 ^ 54"
    by (rule fl64_eval [where e = "-2" and m = "7621476292473147"]) (simp_all add: rne_def)
  show ?thesis
    by (simp only: a lit_03 lit_04 d s)
qed

lemma exact_friendly_cap:
  "min 0.85 (0.4 + 0.3 / (real r + 1)) = 0.4 + 0.3 / (real r + 1)"
proof (rule min_absorb2)
  have "0.4 + 0.3 / (real r + 1) = predictReuseProb 0 r Friendly"
    by (simp only: friendly_base)
  also have "\<dots> \<le> 0.7"
    by (rule friendly_le)
  finally show "0.4 + 0.3 / (real r + 1) \<le> 0.85"
    by simp
qed

lemma hostile64_err:
  "\<bar>fl64 0.95 - 0.95\<bar> \<le> 1 / 2 ^ 50"
  "\<bar>fl64 0.4 - 0.4\<bar> \<le> 1 / 2 ^ 50"
  "\<bar>fl64 0.1 - 0.1\<bar> \<le> 1 / 2 ^ 50"
  unfolding lit_095 lit_04 lit_01 by simp_all

lemma score64_close:
  "\<bar>predictReuseProb64 freq rec type - predictReuseProb freq rec type\<bar> \<le> 1 / 2 ^ 50"
proof (cases type)
  case Friendly
  then show ?thesis
    using friendly64_err [of rec]
    by (simp only: predictReuseProb64_friendly friendly_base)
next
  case Hostile
  then show ?thesis
    using hostile64_err
    by (simp add: predictReuseProb64_def predictReuseProb_def)
qed

lemma score64_gate:
  "predictReuseProb64 freq rec type > fl64 0.88 \<longleftrightarrow> predictReuseProb freq rec type > 0.88"
proof (cases type)
  case Friendly
  have "fl64 0.7 < fl64 0.88"
    unfolding lit_07 lit_088 by simp
  with friendly64_bounds(2) [of rec] have "\<not> predictReuseProb64 freq rec Friendly > fl64 0.88"
    unfolding predictReuseProb64_friendly by linarith
  moreover have "\<not> predictReuseProb freq rec Friendly > 0.88"
    using friendly_le [of freq rec] by simp
  ultimately show ?thesis
    using Friendly by simp
next
  case Hostile
  have "fl64 0.95 > fl64 0.88" "\<not> fl64 0.4 > fl64 0.88" "\<not> fl64 0.1 > fl64 0.88"
    unfolding lit_095 lit_088 lit_04 lit_01 by simp_all
  then show ?thesis
    using Hostile hostile_above_threshold [of freq rec]
    by (simp add: predictReuseProb64_def)
qed

section \<open>The scoring function\<close>

text \<open>
  C3, as stated: in Friendly mode the scoring function returns
  min(0.85, 0.4 + 0.3 / (recency + 1)). It does not: at recency 3 that number is 0.475,
  and the code returns the binary64 value 8556839292003943 / 2 ^ 54, one unit in the
  last place above the binary64 literal 0.475. Nor does it return that expression as
  binary64 would evaluate it: the code multiplies 1 / (recency + 1) by 0.3, and at
  recency 12 this differs from 0.3 / (recency + 1) in the last place.
\<close>

theorem predictReuseProb_formula_counterexample:
  "predictReuseProb64 0 3 Friendly \<noteq> min 0.85 (0.4 + 0.3 / (real (3::nat) + 1))
   \<and> predictReuseProb64 0 12 Friendly
       \<noteq> min (fl64 0.85) (fl64 (fl64 0.4 + fl64 (fl64 0.3 / fl64 (real (12::nat) + 1))))"
proof -
  have "predictReuseProb64 0 3 Friendly \<noteq> min 0.85 (0.4 + 0.3 / (real (3::nat) + 1))"
    unfolding score64_at_3 by simp
  moreover have "predictReuseProb64 0 12 Friendly
       \<noteq> min (fl64 0.85) (fl64 (fl64 0.4 + fl64 (fl64 0.3 / fl64 (real (12::nat) + 1))))"
    unfolding score64_at_12 claimed64_at_12 lit_085 by simp
  ultimately show ?thesis
    by blast
qed

text \<open>
  C3, amended: the scoring function is a function of (frequency, recency, mode) alone.
  In Friendly mode it returns the binary64 value of
  min(0.85, 0.4 + (1 / (recency + 1)) * 0.3), every operation rounded to nearest, which
  is within 1 / 2 ^ 50 of the real number min(0.85, 0.4 + 0.3 / (recency + 1)). In
  Hostile mode it returns the binary64 literal 0.95 for frequency at least 2, 0.4 for
  frequency 1 and 0.1 for frequency 0.
\<close>

theorem predictReuseProb64_spec:
  "predictReuseProb64 freq rec Friendly
     = min (fl64 0.85) (fl64 (fl64 0.4 + fl64 (fl64 (1 / fl64 (real rec + 1)) * fl64 0.3)))
   \<and> \<bar>predictReuseProb64 freq rec Friendly - min 0.85 (0.4 + 0.3 / (real rec + 1))\<bar>
       \<le> 1 / 2 ^ 50
   \<and> predictReuseProb64 freq rec Hostile
       = (if freq \<ge> 2 then fl64 0.95 else if freq = 1 then fl64 0.4 else fl64 0.1)
   \<and> \<bar>predictReuseProb64 freq rec Hostile
         - (if freq \<ge> 2 then 0.95 else if freq = 1 then 0.4 else 0.1)\<bar> \<le> 1 / 2 ^ 50"
proof -
  have f: "predictReuseProb64 freq rec Friendly
     = min (fl64 0.85) (fl64 (fl64 0.4 + fl64 (fl64 (1 / fl64 (real rec + 1)) * fl64 0.3)))"
    by (simp only: predictReuseProb64_friendly friendly64_cap)
  have fe: "\<bar>predictReuseProb64 freq rec Friendly - min 0.85 (0.4 + 0.3 / (real rec + 1))\<bar>
       \<le> 1 / 2 ^ 50"
    using friendly64_err [of rec]
    by (simp only: predictReuseProb64_friendly exact_friendly_cap)
  have h: "predictReuseProb64 freq rec Hostile
       = (if freq \<ge> 2 then fl64 0.95 else if freq = 1 then fl64 0.4 else fl64 0.1)"
    by (simp add: predictReuseProb64_def)
  have he: "\<bar>predictReuseProb64 freq rec Hostile
         - (if freq \<ge> 2 then 0.95 else if freq = 1 then 0.4 else 0.1)\<bar> \<le> 1 / 2 ^ 50"
    unfolding h using hostile64_err by (simp only: split: if_split) blast
  from f fe h he show ?thesis
    by blast
qed

text \<open>
  C9, as stated: the Friendly score equals 0.4 + 0.3 / (recency + 1), strictly decreases
  as the recency grows, and lies in the interval (0.4, 0.7]. In binary64 it does not
  equal that number at recency 3, it is the same at the recencies 73515112 and 73515113,
  and at recency 2 ^ 54 it is the binary64 literal 0.4 itself.
\<close>

theorem friendly_shape_counterexample:
  "predictReuseProb64 1 3 Friendly \<noteq> 0.4 + 0.3 / (real (3::nat) + 1)
   \<and> predictReuseProb64 1 73515113 Friendly = predictReuseProb64 1 73515112 Friendly
   \<and> \<not> predictReuseProb64 1 73515113 Friendly < predictReuseProb64 1 73515112 Friendly
   \<and> predictReuseProb64 1 18014398509481984 Friendly = fl64 0.4
   \<and> \<not> fl64 0.4 < predictReuseProb64 1 18014398509481984 Friendly"
proof -
  have "predictReuseProb64 1 3 Friendly \<noteq> 0.4 + 0.3 / (real (3::nat) + 1)"
    unfolding score64_at_3 by simp
  moreover have "predictReuseProb64 1 73515113 Friendly = predictReuseProb64 1 73515112 Friendly"
    by (simp only: score64_at_73515112 score64_at_73515113)
  moreover have "predictReuseProb64 1 18014398509481984 Friendly = fl64 0.4"
    by (simp only: score64_at_2_54 lit_04)
  ultimately show ?thesis
    by simp
qed

text \<open>
  C9, amended: for every frequency and recency the Friendly score is within 1 / 2 ^ 50 of
  0.4 + 0.3 / (recency + 1); it does not depend on the frequency; it never increases as
  the recency grows; and it lies between the binary64 literals 0.4 and 0.7, both
  included. The cap min(0.85, .) therefore never changes the value, and the largest
  Friendly score is the binary64 literal 0.7, reached at recency 0, not 0.85.
\<close>

theorem friendly_score64_shape:
  "\<bar>predictReuseProb64 freq rec Friendly - (0.4 + 0.3 / (real rec + 1))\<bar> \<le> 1 / 2 ^ 50
   \<and> predictReuseProb64 freq rec Friendly = predictReuseProb64 freq' rec Friendly
   \<and> (rec \<le> rec' \<longrightarrow>
        predictReuseProb64 freq' rec' Friendly \<le> predictReuseProb64 freq rec Friendly)
   \<and> fl64 0.4 \<le> predictReuseProb64 freq rec Friendly
   \<and> predictReuseProb64 freq rec Friendly \<le> fl64 0.7
   \<and> min (fl64 0.85) (fl64 (fl64 0.4 + fl64 (fl64 (1 / fl64 (real rec + 1)) * fl64 0.3)))
       = fl64 (fl64 0.4 + fl64 (fl64 (1 / fl64 (real rec + 1)) * fl64 0.3))
   \<and> predictReuseProb64 freq 0 Friendly = fl64 0.7
   \<and> fl64 0.7 < fl64 0.85"
proof -
  have lt: "fl64 0.7 < fl64 0.85"
    unfolding lit_07 lit_085 by simp
  have mono: "predictReuseProb64 freq' rec' Friendly \<le> predictReuseProb64 freq rec Friendly"
    if "rec \<le> rec'"
    using friendly64_antimono [OF that] by (simp only: predictReuseProb64_friendly)
  from friendly64_err [of rec] friendly64_bounds [of rec] friendly64_cap [of rec]
    score64_at_0 [of freq] mono lt
  show ?thesis
    by (simp only: predictReuseProb64_friendly) blast
qed

theorem friendly_score64_shape_witness:
  "(0::nat) \<le> 1
   \<and> predictReuseProb64 7 1 Friendly \<le> predictReuseProb64 2 0 Friendly
   \<and> predictReuseProb64 7 1 Friendly = 4953959590107546 / 2 ^ 53
   \<and> predictReuseProb64 2 0 Friendly = 6305039478318694 / 2 ^ 53"
proof -
  have "predictReuseProb64 7 1 Friendly \<le> predictReuseProb64 2 0 Friendly"
    using friendly_score64_shape [of 2 0 7 1] by blast
  moreover have "predictReuseProb64 7 1 Friendly = 4953959590107546 / 2 ^ 53"
    by (rule score64_at_1)
  moreover have "predictReuseProb64 2 0 Friendly = 6305039478318694 / 2 ^ 53"
    by (simp only: score64_at_0 lit_07)
  ultimately show ?thesis
    by simp
qed

section \<open>The eviction gate\<close>

text \<open>
  C1. On an access of an absent block id when the cache holds CAPACITY blocks, every
  resident block is aged by one and rescored; maxScore is the maximum score over the
  aged blocks and is what the confidence cell receives. If maxScore is strictly above
  0.88, the victim is the first block with the minimum score and the decision mode is
  ML; otherwise the victim is the first block with the maximum recency and the
  decision mode is LRU_FALLBACK. The victim is replaced in place by the new block. A
  maxScore of exactly 0.88 takes the LRU fallback.
\<close>

theorem eviction_gate:
  assumes miss: "findIndex (\<lambda>b. id_block b = blockId) (cache s) = None"
    and full: "length (cache s) = CAPACITY"
  shows
    "let newCache = ageAll (workload s) (cache s);
         maxScore = Max (set (map score newCache));
         newBlock = \<lparr>id_block = blockId, recency = 0, frequency = 1,
                     score = predictReuseProb 1 0 (workload s)\<rparr>;
         s' = access blockId s
     in length newCache = length (cache s)
      \<and> (\<forall>j<length (cache s).
            newCache ! j =
              (cache s ! j)\<lparr>recency := recency (cache s ! j) + 1,
                score := predictReuseProb (frequency (cache s ! j))
                           (recency (cache s ! j) + 1) (workload s)\<rparr>)
      \<and> confidence s' = maxScore
      \<and> (maxScore > 0.88 \<longrightarrow>
            decisionMode s' = Mode_ML \<and>
            (\<exists>v<length newCache.
               (\<forall>j<length newCache. score (newCache ! v) \<le> score (newCache ! j)) \<and>
               (\<forall>j<v. score (newCache ! v) < score (newCache ! j)) \<and>
               cache s' = newCache[v := newBlock] \<and>
               lastAction s' = ''Evicted '' @ id_block (newCache ! v)
                  @ '' via ML (Confidence > 0.88). Inserted '' @ blockId @ ''.''))
      \<and> (\<not> maxScore > 0.88 \<longrightarrow>
            decisionMode s' = Mode_LRU_FALLBACK \<and>
            (\<exists>v<length newCache.
               (\<forall>j<length newCache. recency (newCache ! j) \<le> recency (newCache ! v)) \<and>
               (\<forall>j<v. recency (newCache ! j) < recency (newCache ! v)) \<and>
               cache s' = newCache[v := newBlock] \<and>
               lastAction s' = ''Evicted '' @ id_block (newCache ! v)
                  @ '' via LRU Fallback (Confidence Low). Inserted '' @ blockId @ ''.''))
      \<and> (maxScore = 0.88 \<longrightarrow> decisionMode s' = Mode_LRU_FALLBACK)
      \<and> selectVictim 0.88 arr
          = (lruVictimIndex arr, ''LRU Fallback (Confidence Low)'', Mode_LRU_FALLBACK)"
proof -
  define newCache where "newCache = ageAll (workload s) (cache s)"
  define maxScore where "maxScore = Max (set (map score newCache))"
  define newBlock where "newBlock = \<lparr>id_block = blockId, recency = 0, frequency = 1,
                     score = predictReuseProb 1 0 (workload s)\<rparr>"
  define s' where "s' = access blockId s"
  have len: "length newCache = length (cache s)"
    by (simp add: newCache_def length_ageAll)
  have ne: "newCache \<noteq> []"
    using len full by (auto simp: CAPACITY_def)
  have nth: "\<forall>j<length (cache s).
            newCache ! j =
              (cache s ! j)\<lparr>recency := recency (cache s ! j) + 1,
                score := predictReuseProb (frequency (cache s ! j))
                           (recency (cache s ! j) + 1) (workload s)\<rparr>"
    by (simp add: newCache_def nth_ageAll)
  have mm: "Math_max (map score newCache) = maxScore"
    using ne by (simp add: maxScore_def Math_max_eq)
  have acc: "s' = evict blockId newBlock s"
    unfolding s'_def newBlock_def using miss full by (simp add: access_evict)
  have conf: "confidence s' = maxScore"
    by (simp add: acc confidence_evict mm [unfolded newCache_def])
  have ml: "decisionMode s' = Mode_ML \<and>
            (\<exists>v<length newCache.
               (\<forall>j<length newCache. score (newCache ! v) \<le> score (newCache ! j)) \<and>
               (\<forall>j<v. score (newCache ! v) < score (newCache ! j)) \<and>
               cache s' = newCache[v := newBlock] \<and>
               lastAction s' = ''Evicted '' @ id_block (newCache ! v)
                  @ '' via ML (Confidence > 0.88). Inserted '' @ blockId @ ''.'')"
    if gt: "maxScore > 0.88"
  proof -
    have sel: "selectVictim (Math_max (map score newCache)) newCache
                 = (mlVictimIndex newCache, ''ML (Confidence > 0.88)'', Mode_ML)"
      using gt by (simp add: mm selectVictim_def CONFIDENCE_THRESHOLD_def)
    have fields: "decisionMode s' = Mode_ML"
      "cache s' = newCache[mlVictimIndex newCache := newBlock]"
      "lastAction s' = ''Evicted '' @ id_block (newCache ! mlVictimIndex newCache)
                  @ '' via ML (Confidence > 0.88). Inserted '' @ blockId @ ''.''"
      using sel by (simp_all add: acc evict_def Let_def newCache_def [symmetric])
    with mlVictimIndex_first_min [OF ne] show ?thesis
      by blast
  qed
  have lru: "decisionMode s' = Mode_LRU_FALLBACK \<and>
            (\<exists>v<length newCache.
               (\<forall>j<length newCache. recency (newCache ! j) \<le> recency (newCache ! v)) \<and>
               (\<forall>j<v. recency (newCache ! j) < recency (newCache ! v)) \<and>
               cache s' = newCache[v := newBlock] \<and>
               lastAction s' = ''Evicted '' @ id_block (newCache ! v)
                  @ '' via LRU Fallback (Confidence Low). Inserted '' @ blockId @ ''.'')"
    if le: "\<not> maxScore > 0.88"
  proof -
    have sel: "selectVictim (Math_max (map score newCache)) newCache
                 = (lruVictimIndex newCache, ''LRU Fallback (Confidence Low)'', Mode_LRU_FALLBACK)"
      using le by (simp add: mm selectVictim_def CONFIDENCE_THRESHOLD_def)
    have fields: "decisionMode s' = Mode_LRU_FALLBACK"
      "cache s' = newCache[lruVictimIndex newCache := newBlock]"
      "lastAction s' = ''Evicted '' @ id_block (newCache ! lruVictimIndex newCache)
                  @ '' via LRU Fallback (Confidence Low). Inserted '' @ blockId @ ''.''"
      using sel by (simp_all add: acc evict_def Let_def newCache_def [symmetric])
    with lruVictimIndex_first_max [OF ne] show ?thesis
      by blast
  qed
  have eq: "decisionMode s' = Mode_LRU_FALLBACK" if "maxScore = 0.88"
    using lru that by simp
  have gate: "selectVictim 0.88 arr
          = (lruVictimIndex arr, ''LRU Fallback (Confidence Low)'', Mode_LRU_FALLBACK)"
    by (simp add: selectVictim_def CONFIDENCE_THRESHOLD_def)
  from len nth conf ml lru eq gate show ?thesis
    unfolding Let_def newCache_def [symmetric] maxScore_def [symmetric]
      newBlock_def [symmetric] s'_def [symmetric]
    by blast
qed

theorem eviction_gate_witness:
  "findIndex (\<lambda>b. id_block b = ''E'') (cache scen6) = None
   \<and> length (cache scen6) = CAPACITY
   \<and> Max (set (map score (ageAll (workload scen6) (cache scen6)))) = 0.95
   \<and> confidence (access ''E'' scen6) = 0.95
   \<and> decisionMode (access ''E'' scen6) = Mode_ML"
proof -
  have h1: "findIndex (\<lambda>b. id_block b = ''E'') (cache scen6) = None"
    by (simp add: scen6_def)
  have h2: "length (cache scen6) = CAPACITY"
    by (simp add: scen6_def CAPACITY_def)
  have mx: "Max (set (map score (ageAll (workload scen6) (cache scen6)))) = 0.95"
    by (simp add: scen6_def ageAll_def rescore_def predictReuseProb_def)
  from eviction_gate [OF h1 h2, of "[]"]
  have "confidence (access ''E'' scen6)
          = Max (set (map score (ageAll (workload scen6) (cache scen6))))"
    and "Max (set (map score (ageAll (workload scen6) (cache scen6)))) > 0.88
          \<longrightarrow> decisionMode (access ''E'' scen6) = Mode_ML"
    unfolding Let_def by blast+
  with h1 h2 mx show ?thesis
    by simp
qed

section \<open>Capacity\<close>

text \<open>
  C2. On every sequence of events from an empty cache the number of resident blocks is
  at most CAPACITY; it never decreases, so once it equals CAPACITY it stays there. A hit
  leaves the list of resident ids as it is, and a miss on a full cache replaces one id
  in place.
\<close>

theorem capacity_invariant:
  assumes "cache s0 = []"
  shows "length (cache (run s0 es)) \<le> CAPACITY
       \<and> length (cache (run s0 es)) \<le> length (cache (run s0 (es @ es')))
       \<and> (length (cache (run s0 es)) = CAPACITY \<longrightarrow>
            length (cache (run s0 (es @ es'))) = CAPACITY)
       \<and> (findIndex (\<lambda>b. id_block b = x) (cache t) \<noteq> None \<longrightarrow>
            map id_block (cache (access x t)) = map id_block (cache t))
       \<and> (findIndex (\<lambda>b. id_block b = x) (cache t) = None \<and> length (cache t) = CAPACITY \<longrightarrow>
            (\<exists>v<CAPACITY. map id_block (cache (access x t)) = (map id_block (cache t))[v := x]))"
proof -
  from assms have le: "length (cache (run s0 es)) \<le> CAPACITY" for es
    by (simp add: length_cache_run_le)
  have mono: "length (cache (run s0 es)) \<le> length (cache (run s0 (es @ es')))"
    by (simp add: run_append length_cache_run_ge)
  have stay: "length (cache (run s0 (es @ es'))) = CAPACITY"
    if "length (cache (run s0 es)) = CAPACITY"
    using that mono le [of "es @ es'"] by simp
  have hit: "map id_block (cache (access x t)) = map id_block (cache t)"
    if "findIndex (\<lambda>b. id_block b = x) (cache t) \<noteq> None"
    using that by (auto simp: ids_access_hit)
  have ev: "\<exists>v<CAPACITY. map id_block (cache (access x t)) = (map id_block (cache t))[v := x]"
    if "findIndex (\<lambda>b. id_block b = x) (cache t) = None \<and> length (cache t) = CAPACITY"
    using that ids_access_evict [of x t] by simp
  from le mono stay hit ev show ?thesis
    by blast
qed

theorem capacity_invariant_witness:
  "cache initialState = []
   \<and> length (cache (run initialState
        [Access ''A'', Access ''B'', Access ''C'', Access ''D'', Access ''A'', Access ''A'']))
       = CAPACITY
   \<and> length (cache (run initialState
        ([Access ''A'', Access ''B'', Access ''C'', Access ''D'', Access ''A'', Access ''A'']
         @ [Access ''E''])))
       = CAPACITY"
proof -
  have h: "cache initialState = []"
    by (simp add: initialState_def)
  have full: "length (cache (run initialState
        [Access ''A'', Access ''B'', Access ''C'', Access ''D'', Access ''A'', Access ''A'']))
       = CAPACITY"
    by (simp add: run_scen6 scen6_def CAPACITY_def)
  from capacity_invariant [OF h,
      of "[Access ''A'', Access ''B'', Access ''C'', Access ''D'', Access ''A'', Access ''A'']"
         "[Access ''E'']"] h full
  show ?thesis
    by blast
qed

section \<open>Hits\<close>

text \<open>
  C7. For every state and every resident block id, two accesses of that id in a row
  leave the number (and the ids) of the resident blocks unchanged, raise that block's
  frequency by exactly 2 over its value before the two accesses, and leave its recency
  at 0.
\<close>

theorem double_hit:
  assumes "blockId \<in> id_block ` set (cache s)"
  shows "\<exists>i. findIndex (\<lambda>b. id_block b = blockId) (cache s) = Some i
           \<and> i < length (cache s)
           \<and> id_block (cache s ! i) = blockId
           \<and> findIndex (\<lambda>b. id_block b = blockId) (cache (access blockId s)) = Some i
           \<and> length (cache (access blockId (access blockId s))) = length (cache s)
           \<and> map id_block (cache (access blockId (access blockId s))) = map id_block (cache s)
           \<and> frequency (cache (access blockId (access blockId s)) ! i)
               = frequency (cache s ! i) + 2
           \<and> recency (cache (access blockId (access blockId s)) ! i) = 0"
proof -
  from assms have "findIndex (\<lambda>b. id_block b = blockId) (cache s) \<noteq> None"
    by (auto simp: findIndex_None)
  then obtain i where i: "findIndex (\<lambda>b. id_block b = blockId) (cache s) = Some i"
    by blast
  from findIndex_Some [OF i] have lt: "i < length (cache s)"
    and idi: "id_block (cache s ! i) = blockId"
    by simp_all
  define s1 where "s1 = access blockId s"
  have c1: "cache s1 = touchHit (workload s) i (cache s)"
    by (simp add: s1_def access_hit [OF i])
  have i1: "findIndex (\<lambda>b. id_block b = blockId) (cache s1) = Some i"
    using i by (simp add: c1 findIndex_ids [OF ids_touchHit])
  have c2: "cache (access blockId s1) = touchHit (workload s1) i (cache s1)"
    by (simp add: access_hit [OF i1])
  have len: "length (cache (access blockId s1)) = length (cache s)"
    by (simp add: c2 c1 length_touchHit)
  have ids: "map id_block (cache (access blockId s1)) = map id_block (cache s)"
    by (simp add: c2 c1 ids_touchHit)
  have lt1: "i < length (cache s1)"
    using lt by (simp add: c1 length_touchHit)
  have f1: "frequency (cache s1 ! i) = frequency (cache s ! i) + 1"
    using lt by (simp add: c1 nth_touchHit rescore_def)
  have f2: "frequency (cache (access blockId s1) ! i) = frequency (cache s ! i) + 2"
    using lt1 f1 by (simp add: c2 nth_touchHit rescore_def)
  have r2: "recency (cache (access blockId s1) ! i) = 0"
    using lt1 by (simp add: c2 nth_touchHit rescore_def)
  from i lt idi i1 len ids f2 r2 show ?thesis
    unfolding s1_def by blast
qed

theorem double_hit_witness:
  "''A'' \<in> id_block ` set (cache scen4)
   \<and> findIndex (\<lambda>b. id_block b = ''A'') (cache scen4) = Some 0
   \<and> frequency (cache scen4 ! 0) = 1
   \<and> length (cache (access ''A'' (access ''A'' scen4))) = length (cache scen4)
   \<and> frequency (cache (access ''A'' (access ''A'' scen4)) ! 0) = 3
   \<and> recency (cache (access ''A'' (access ''A'' scen4)) ! 0) = 0"
proof -
  have h: "''A'' \<in> id_block ` set (cache scen4)"
    by (simp add: scen4_def)
  have i0: "findIndex (\<lambda>b. id_block b = ''A'') (cache scen4) = Some 0"
    by (simp add: scen4_def)
  have f0: "frequency (cache scen4 ! 0) = 1"
    by (simp add: scen4_def)
  from double_hit [OF h] i0 f0 h show ?thesis
    by auto
qed

section \<open>Score freshness\<close>

text \<open>
  C4. After every access (hit, insertion or eviction) the score of every resident block
  is predictReuseProb of that block's frequency, its recency and the active workload
  mode. The result of an access does not depend on the scores stored before it: an
  eviction is decided on the scores recomputed from the aged features and the active
  mode.
\<close>

theorem score_freshness:
  "(\<forall>b\<in>set (cache (access x s)).
       score b = predictReuseProb (frequency b) (recency b) (workload (access x s)))
   \<and> workload (access x s) = workload s
   \<and> access x (s\<lparr>cache := map (\<lambda>b. b\<lparr>score := g b\<rparr>) (cache s)\<rparr>) = access x s
   \<and> (findIndex (\<lambda>b. id_block b = x) (cache s) = None \<and> CAPACITY \<le> length (cache s) \<longrightarrow>
        confidence (access x s)
          = Max ((\<lambda>b. predictReuseProb (frequency b) (recency b + 1) (workload s))
                   ` set (cache s))
        \<and> decisionMode (access x s)
          = (if Max ((\<lambda>b. predictReuseProb (frequency b) (recency b + 1) (workload s))
                       ` set (cache s)) > 0.88
             then Mode_ML else Mode_LRU_FALLBACK))"
proof -
  have fresh: "\<forall>b\<in>set (cache (access x s)).
       score b = predictReuseProb (frequency b) (recency b) (workload (access x s))"
    by (simp add: workload_access fresh_access)
  have dec: "confidence (access x s)
          = Max ((\<lambda>b. predictReuseProb (frequency b) (recency b + 1) (workload s))
                   ` set (cache s))
        \<and> decisionMode (access x s)
          = (if Max ((\<lambda>b. predictReuseProb (frequency b) (recency b + 1) (workload s))
                       ` set (cache s)) > 0.88
             then Mode_ML else Mode_LRU_FALLBACK)"
    if "findIndex (\<lambda>b. id_block b = x) (cache s) = None \<and> CAPACITY \<le> length (cache s)"
    using that decisionMode_access_evict [of x s] confidence_access_evict [of x s]
    by simp
  from fresh dec show ?thesis
    by (simp add: workload_access access_forgets)
qed

theorem score_freshness_witness:
  "score (cache (setWorkload Friendly scen6) ! 0) = 0.95
   \<and> predictReuseProb (frequency (cache (setWorkload Friendly scen6) ! 0))
        (recency (cache (setWorkload Friendly scen6) ! 0))
        (workload (setWorkload Friendly scen6)) = 0.7
   \<and> cache (access ''E'' (setWorkload Friendly scen6)) ! 0
        \<in> set (cache (access ''E'' (setWorkload Friendly scen6)))
   \<and> score (cache (access ''E'' (setWorkload Friendly scen6)) ! 0)
        = predictReuseProb (frequency (cache (access ''E'' (setWorkload Friendly scen6)) ! 0))
            (recency (cache (access ''E'' (setWorkload Friendly scen6)) ! 0))
            (workload (access ''E'' (setWorkload Friendly scen6)))
   \<and> workload (access ''E'' (setWorkload Friendly scen6)) = Friendly
   \<and> findIndex (\<lambda>b. id_block b = ''E'') (cache (setWorkload Friendly scen6)) = None
   \<and> CAPACITY \<le> length (cache (setWorkload Friendly scen6))
   \<and> confidence (access ''E'' (setWorkload Friendly scen6)) = 0.55
   \<and> decisionMode (access ''E'' (setWorkload Friendly scen6)) = Mode_LRU_FALLBACK"
proof -
  have stale: "score (cache (setWorkload Friendly scen6) ! 0) = 0.95"
    "predictReuseProb (frequency (cache (setWorkload Friendly scen6) ! 0))
        (recency (cache (setWorkload Friendly scen6) ! 0))
        (workload (setWorkload Friendly scen6)) = 0.7"
    by (simp_all add: setWorkload_def scen6_def predictReuseProb_def)
  have w: "workload (access ''E'' (setWorkload Friendly scen6)) = Friendly"
    by (simp add: access_scen7F scen7F_def)
  have mem: "cache (access ''E'' (setWorkload Friendly scen6)) ! 0
               \<in> set (cache (access ''E'' (setWorkload Friendly scen6)))"
    by (simp add: access_scen7F scen7F_def)
  have h: "findIndex (\<lambda>b. id_block b = ''E'') (cache (setWorkload Friendly scen6)) = None"
    "CAPACITY \<le> length (cache (setWorkload Friendly scen6))"
    by (simp_all add: setWorkload_def scen6_def CAPACITY_def)
  have mx: "Max ((\<lambda>b. predictReuseProb (frequency b) (recency b + 1)
                        (workload (setWorkload Friendly scen6)))
                   ` set (cache (setWorkload Friendly scen6))) = 0.55"
    by (simp add: setWorkload_def scen6_def predictReuseProb_def)
  note inst = score_freshness [of "''E''" "setWorkload Friendly scen6"]
  from inst mem have fresh0:
    "score (cache (access ''E'' (setWorkload Friendly scen6)) ! 0)
        = predictReuseProb (frequency (cache (access ''E'' (setWorkload Friendly scen6)) ! 0))
            (recency (cache (access ''E'' (setWorkload Friendly scen6)) ! 0))
            (workload (access ''E'' (setWorkload Friendly scen6)))"
    by blast
  from inst h have dec:
    "confidence (access ''E'' (setWorkload Friendly scen6))
       = Max ((\<lambda>b. predictReuseProb (frequency b) (recency b + 1)
                      (workload (setWorkload Friendly scen6)))
                ` set (cache (setWorkload Friendly scen6)))"
    "decisionMode (access ''E'' (setWorkload Friendly scen6))
       = (if Max ((\<lambda>b. predictReuseProb (frequency b) (recency b + 1)
                          (workload (setWorkload Friendly scen6)))
                    ` set (cache (setWorkload Friendly scen6))) > 0.88
          then Mode_ML else Mode_LRU_FALLBACK)"
    by blast+
  have c: "confidence (access ''E'' (setWorkload Friendly scen6)) = 0.55"
    by (simp only: dec(1) mx)
  have d: "decisionMode (access ''E'' (setWorkload Friendly scen6)) = Mode_LRU_FALLBACK"
    unfolding dec(2) mx by simp
  from stale mem fresh0 w h c d show ?thesis
    by blast
qed

section \<open>Friendly mode\<close>

text \<open>
  C5. For every sequence of events after which the workload mode is Friendly, the next
  access never sets the decision mode to ML: on a miss with a full cache the computed
  maxScore is at most 0.85, hence not above 0.88, and the eviction uses the LRU
  fallback.
\<close>

theorem friendly_never_ml:
  assumes "workload (run s0 es) = Friendly"
  shows "decisionMode (run s0 (es @ [Access x])) \<noteq> Mode_ML
       \<and> run s0 (es @ [Access x]) = access x (run s0 es)
       \<and> (\<forall>b\<in>set (ageAll Friendly (cache (run s0 es))). score b \<le> 0.85)
       \<and> (findIndex (\<lambda>b. id_block b = x) (cache (run s0 es)) = None
            \<and> CAPACITY \<le> length (cache (run s0 es)) \<longrightarrow>
              confidence (access x (run s0 es))
                = Max (set (map score (ageAll Friendly (cache (run s0 es)))))
            \<and> confidence (access x (run s0 es)) \<le> 0.85
            \<and> \<not> confidence (access x (run s0 es)) > 0.88
            \<and> decisionMode (access x (run s0 es)) = Mode_LRU_FALLBACK)"
proof -
  define s where "s = run s0 es"
  have w: "workload s = Friendly"
    using assms by (simp add: s_def)
  have r: "run s0 (es @ [Access x]) = access x s"
    by (simp add: run_snoc s_def)
  have cap: "\<forall>b\<in>set (ageAll Friendly (cache s)). score b \<le> 0.85"
  proof
    fix b assume "b \<in> set (ageAll Friendly (cache s))"
    then have "score b = predictReuseProb (frequency b) (recency b) Friendly"
      by (rule fresh_ageAll)
    also have "\<dots> \<le> 0.7"
      by (rule friendly_le)
    finally show "score b \<le> 0.85"
      by simp
  qed
  have ev: "confidence (access x s) = Max (set (map score (ageAll Friendly (cache s))))
            \<and> confidence (access x s) \<le> 0.85
            \<and> \<not> confidence (access x s) > 0.88
            \<and> decisionMode (access x s) = Mode_LRU_FALLBACK"
    if h: "findIndex (\<lambda>b. id_block b = x) (cache s) = None \<and> CAPACITY \<le> length (cache s)"
  proof -
    from h have ne: "cache s \<noteq> []"
      by (auto simp: CAPACITY_def)
    have c: "confidence (access x s) = Max (set (map score (ageAll Friendly (cache s))))"
      using h w by (simp add: confidence_access_evict scores_ageAll)
    have "Max (set (map score (ageAll Friendly (cache s)))) \<le> 0.85"
    proof (rule Max.boundedI)
      show "finite (set (map score (ageAll Friendly (cache s))))"
        by simp
      show "set (map score (ageAll Friendly (cache s))) \<noteq> {}"
        using ne by (simp add: ageAll_def)
      show "a \<le> 0.85" if "a \<in> set (map score (ageAll Friendly (cache s)))" for a
        using that cap by auto
    qed
    with c have le: "confidence (access x s) \<le> 0.85"
      by simp
    then have "\<not> confidence (access x s) > 0.88"
      by simp
    with h c le show ?thesis
      by (simp add: decisionMode_access_evict)
  qed
  have "decisionMode (access x s) \<noteq> Mode_ML"
  proof (cases "findIndex (\<lambda>b. id_block b = x) (cache s) = None \<and> CAPACITY \<le> length (cache s)")
    case True
    with ev show ?thesis by simp
  next
    case False
    then show ?thesis by (simp add: decisionMode_access_other)
  qed
  then have nml: "decisionMode (run s0 (es @ [Access x])) \<noteq> Mode_ML"
    by (simp add: r)
  from nml r cap ev show ?thesis
    unfolding s_def by blast
qed

theorem friendly_never_ml_witness:
  "workload (run scen6 [SetWorkload Friendly]) = Friendly
   \<and> findIndex (\<lambda>b. id_block b = ''E'') (cache (run scen6 [SetWorkload Friendly])) = None
   \<and> CAPACITY \<le> length (cache (run scen6 [SetWorkload Friendly]))
   \<and> confidence (access ''E'' (run scen6 [SetWorkload Friendly])) = 0.55
   \<and> decisionMode (access ''E'' (run scen6 [SetWorkload Friendly])) = Mode_LRU_FALLBACK
   \<and> decisionMode (run scen6 ([SetWorkload Friendly] @ [Access ''E''])) \<noteq> Mode_ML"
proof -
  have r: "run scen6 [SetWorkload Friendly] = setWorkload Friendly scen6"
    by (simp add: run_def)
  have h: "workload (run scen6 [SetWorkload Friendly]) = Friendly"
    unfolding r by (simp add: setWorkload_def)
  have m: "findIndex (\<lambda>b. id_block b = ''E'') (cache (run scen6 [SetWorkload Friendly])) = None"
    "CAPACITY \<le> length (cache (run scen6 [SetWorkload Friendly]))"
    unfolding r by (simp_all add: setWorkload_def scen6_def CAPACITY_def)
  have c: "confidence (access ''E'' (run scen6 [SetWorkload Friendly])) = 0.55"
    unfolding r access_scen7F by (simp add: scen7F_def)
  from friendly_never_ml [OF h, of "''E''"] h m c show ?thesis
    by simp
qed

section \<open>Hostile mode\<close>

text \<open>
  C10. In Hostile mode, a miss on a full cache sets the decision mode to ML if and only
  if, after the blocks have been aged and rescored, some resident block has frequency
  at least 2 (the only Hostile score above 0.88 is 0.95, reached exactly then); it sets
  LRU_FALLBACK if and only if every resident block has frequency at most 1.
\<close>

theorem hostile_gate:
  assumes hostile: "workload s = Hostile"
    and miss: "findIndex (\<lambda>b. id_block b = x) (cache s) = None"
    and full: "CAPACITY \<le> length (cache s)"
  shows "(decisionMode (access x s) = Mode_ML
            \<longleftrightarrow> (\<exists>b\<in>set (ageAll Hostile (cache s)). 2 \<le> frequency b))
       \<and> (decisionMode (access x s) = Mode_LRU_FALLBACK
            \<longleftrightarrow> (\<forall>b\<in>set (ageAll Hostile (cache s)). frequency b \<le> 1))
       \<and> (\<forall>b\<in>set (ageAll Hostile (cache s)).
            (score b > 0.88 \<longleftrightarrow> 2 \<le> frequency b) \<and> (score b > 0.88 \<longrightarrow> score b = 0.95))
       \<and> map frequency (ageAll Hostile (cache s)) = map frequency (cache s)"
proof -
  have fr: "map frequency (ageAll Hostile (cache s)) = map frequency (cache s)"
    by (rule frequencies_ageAll)
  then have sets: "frequency ` set (ageAll Hostile (cache s)) = frequency ` set (cache s)"
    by (metis set_map)
  have ex: "(\<exists>b\<in>set (ageAll Hostile (cache s)). 2 \<le> frequency b)
              \<longleftrightarrow> (\<exists>b\<in>set (cache s). 2 \<le> frequency b)"
    using sets by (metis (no_types, lifting) image_iff)
  have conf: "confidence (access x s) > 0.88 \<longleftrightarrow> (\<exists>b\<in>set (cache s). 2 \<le> frequency b)"
    using assms by (rule hostile_confidence_above)
  have mode: "decisionMode (access x s)
                = (if confidence (access x s) > 0.88 then Mode_ML else Mode_LRU_FALLBACK)"
    using miss full by (rule decisionMode_access_evict)
  have ml: "decisionMode (access x s) = Mode_ML
              \<longleftrightarrow> (\<exists>b\<in>set (ageAll Hostile (cache s)). 2 \<le> frequency b)"
    using mode conf ex by simp
  have lru: "decisionMode (access x s) = Mode_LRU_FALLBACK
              \<longleftrightarrow> (\<forall>b\<in>set (ageAll Hostile (cache s)). frequency b \<le> 1)"
  proof -
    have "decisionMode (access x s) = Mode_LRU_FALLBACK
            \<longleftrightarrow> \<not> (\<exists>b\<in>set (ageAll Hostile (cache s)). 2 \<le> frequency b)"
      using mode conf ex by simp
    also have "\<dots> \<longleftrightarrow> (\<forall>b\<in>set (ageAll Hostile (cache s)). frequency b \<le> 1)"
      by (auto simp: not_le less_Suc_eq_le)
    finally show ?thesis .
  qed
  have sc: "\<forall>b\<in>set (ageAll Hostile (cache s)).
            (score b > 0.88 \<longleftrightarrow> 2 \<le> frequency b) \<and> (score b > 0.88 \<longrightarrow> score b = 0.95)"
  proof
    fix b assume "b \<in> set (ageAll Hostile (cache s))"
    then have "score b = predictReuseProb (frequency b) (recency b) Hostile"
      by (rule fresh_ageAll)
    then show "(score b > 0.88 \<longleftrightarrow> 2 \<le> frequency b) \<and> (score b > 0.88 \<longrightarrow> score b = 0.95)"
      using hostile_above_threshold [of "frequency b" "recency b"]
        hostile_above_value [of "frequency b" "recency b"]
      by simp
  qed
  from ml lru sc fr show ?thesis
    by blast
qed

theorem hostile_gate_witness:
  "workload scen6 = Hostile
   \<and> findIndex (\<lambda>b. id_block b = ''E'') (cache scen6) = None
   \<and> CAPACITY \<le> length (cache scen6)
   \<and> map frequency (ageAll Hostile (cache scen6)) = [3, 1, 1, 1]
   \<and> decisionMode (access ''E'' scen6) = Mode_ML
   \<and> workload scen4 = Hostile
   \<and> findIndex (\<lambda>b. id_block b = ''E'') (cache scen4) = None
   \<and> CAPACITY \<le> length (cache scen4)
   \<and> map frequency (ageAll Hostile (cache scen4)) = [1, 1, 1, 1]
   \<and> decisionMode (access ''E'' scen4) = Mode_LRU_FALLBACK"
proof -
  have h6: "workload scen6 = Hostile"
    "findIndex (\<lambda>b. id_block b = ''E'') (cache scen6) = None"
    "CAPACITY \<le> length (cache scen6)"
    by (simp_all add: scen6_def CAPACITY_def)
  have h4: "workload scen4 = Hostile"
    "findIndex (\<lambda>b. id_block b = ''E'') (cache scen4) = None"
    "CAPACITY \<le> length (cache scen4)"
    by (simp_all add: scen4_def CAPACITY_def)
  have f6: "map frequency (ageAll Hostile (cache scen6)) = [3, 1, 1, 1]"
    by (simp add: scen6_def ageAll_def rescore_def)
  have f4: "map frequency (ageAll Hostile (cache scen4)) = [1, 1, 1, 1]"
    by (simp add: scen4_def ageAll_def rescore_def)
  have e6: "\<exists>b\<in>set (ageAll Hostile (cache scen6)). 2 \<le> frequency b"
    by (simp add: scen6_def ageAll_def rescore_def)
  have a4: "\<forall>b\<in>set (ageAll Hostile (cache scen4)). frequency b \<le> 1"
    by (simp add: scen4_def ageAll_def rescore_def)
  from hostile_gate [OF h6] e6 have m6: "decisionMode (access ''E'' scen6) = Mode_ML"
    by blast
  from hostile_gate [OF h4] a4 have m4: "decisionMode (access ''E'' scen4) = Mode_LRU_FALLBACK"
    by blast
  from h6 h4 f6 f4 m6 m4 show ?thesis
    by simp
qed

section \<open>Switching the workload mode\<close>

text \<open>
  C8. Switching the workload mode changes the workload cell only: the cache, and with
  it every block's recency, frequency and score, is as before. The next access rescores
  every resident block against the new mode, and its eviction decision is computed from
  those new scores, not from the stored ones.
\<close>

theorem mode_switch_lazy:
  "cache (setWorkload w s) = cache s
   \<and> workload (setWorkload w s) = w
   \<and> confidence (setWorkload w s) = confidence s
   \<and> decisionMode (setWorkload w s) = decisionMode s
   \<and> lastAction (setWorkload w s) = lastAction s
   \<and> (\<forall>b\<in>set (cache (access x (setWorkload w s))).
         score b = predictReuseProb (frequency b) (recency b) w)
   \<and> access x (setWorkload w (s\<lparr>cache := map (\<lambda>b. b\<lparr>score := g b\<rparr>) (cache s)\<rparr>))
       = access x (setWorkload w s)
   \<and> (findIndex (\<lambda>b. id_block b = x) (cache s) = None \<and> CAPACITY \<le> length (cache s) \<longrightarrow>
        confidence (access x (setWorkload w s))
          = Max ((\<lambda>b. predictReuseProb (frequency b) (recency b + 1) w) ` set (cache s))
        \<and> decisionMode (access x (setWorkload w s))
          = (if Max ((\<lambda>b. predictReuseProb (frequency b) (recency b + 1) w) ` set (cache s))
                  > 0.88
             then Mode_ML else Mode_LRU_FALLBACK))"
proof -
  have sw: "cache (setWorkload w s) = cache s" "workload (setWorkload w s) = w"
    "confidence (setWorkload w s) = confidence s"
    "decisionMode (setWorkload w s) = decisionMode s"
    "lastAction (setWorkload w s) = lastAction s"
    by (simp_all add: setWorkload_def)
  have fresh: "\<forall>b\<in>set (cache (access x (setWorkload w s))).
         score b = predictReuseProb (frequency b) (recency b) w"
    using fresh_access [of _ x "setWorkload w s"] by (simp add: sw)
  have forget: "access x (setWorkload w (s\<lparr>cache := map (\<lambda>b. b\<lparr>score := g b\<rparr>) (cache s)\<rparr>))
       = access x (setWorkload w s)"
  proof -
    have "setWorkload w (s\<lparr>cache := map (\<lambda>b. b\<lparr>score := g b\<rparr>) (cache s)\<rparr>)
            = (setWorkload w s)\<lparr>cache := map (\<lambda>b. b\<lparr>score := g b\<rparr>)
                                            (cache (setWorkload w s))\<rparr>"
      by (cases s) (simp add: setWorkload_def)
    then show ?thesis
      by (simp only: access_forgets)
  qed
  have dec: "confidence (access x (setWorkload w s))
          = Max ((\<lambda>b. predictReuseProb (frequency b) (recency b + 1) w) ` set (cache s))
        \<and> decisionMode (access x (setWorkload w s))
          = (if Max ((\<lambda>b. predictReuseProb (frequency b) (recency b + 1) w) ` set (cache s))
                  > 0.88
             then Mode_ML else Mode_LRU_FALLBACK)"
    if "findIndex (\<lambda>b. id_block b = x) (cache s) = None \<and> CAPACITY \<le> length (cache s)"
    using that decisionMode_access_evict [of x "setWorkload w s"]
      confidence_access_evict [of x "setWorkload w s"]
    by (simp add: sw)
  from sw fresh forget dec show ?thesis
    by blast
qed

theorem mode_switch_lazy_witness:
  "cache (setWorkload Friendly scen6) = cache scen6
   \<and> score (cache (setWorkload Friendly scen6) ! 0) = 0.95
   \<and> predictReuseProb (frequency (cache (setWorkload Friendly scen6) ! 0))
        (recency (cache (setWorkload Friendly scen6) ! 0)) Friendly = 0.7
   \<and> findIndex (\<lambda>b. id_block b = ''E'') (cache scen6) = None
   \<and> CAPACITY \<le> length (cache scen6)
   \<and> cache (access ''E'' (setWorkload Friendly scen6)) ! 0
        \<in> set (cache (access ''E'' (setWorkload Friendly scen6)))
   \<and> score (cache (access ''E'' (setWorkload Friendly scen6)) ! 0)
        = predictReuseProb (frequency (cache (access ''E'' (setWorkload Friendly scen6)) ! 0))
            (recency (cache (access ''E'' (setWorkload Friendly scen6)) ! 0)) Friendly
   \<and> confidence (access ''E'' (setWorkload Friendly scen6)) = 0.55
   \<and> decisionMode (access ''E'' (setWorkload Friendly scen6)) = Mode_LRU_FALLBACK
   \<and> decisionMode (access ''E'' scen6) = Mode_ML"
proof -
  have stale: "score (cache (setWorkload Friendly scen6) ! 0) = 0.95"
    "predictReuseProb (frequency (cache (setWorkload Friendly scen6) ! 0))
        (recency (cache (setWorkload Friendly scen6) ! 0)) Friendly = 0.7"
    by (simp_all add: setWorkload_def scen6_def predictReuseProb_def)
  have h: "findIndex (\<lambda>b. id_block b = ''E'') (cache scen6) = None"
    "CAPACITY \<le> length (cache scen6)"
    by (simp_all add: scen6_def CAPACITY_def)
  have mem: "cache (access ''E'' (setWorkload Friendly scen6)) ! 0
               \<in> set (cache (access ''E'' (setWorkload Friendly scen6)))"
    by (simp add: access_scen7F scen7F_def)
  have mx: "Max ((\<lambda>b. predictReuseProb (frequency b) (recency b + 1) Friendly)
                   ` set (cache scen6)) = 0.55"
    by (simp add: scen6_def predictReuseProb_def)
  have ml: "decisionMode (access ''E'' scen6) = Mode_ML"
    by (simp add: access_scen7 scen7_def)
  note inst = mode_switch_lazy [of Friendly scen6 "''E''"]
  from inst have same: "cache (setWorkload Friendly scen6) = cache scen6"
    by blast
  from inst mem have fresh0:
    "score (cache (access ''E'' (setWorkload Friendly scen6)) ! 0)
        = predictReuseProb (frequency (cache (access ''E'' (setWorkload Friendly scen6)) ! 0))
            (recency (cache (access ''E'' (setWorkload Friendly scen6)) ! 0)) Friendly"
    by blast
  from inst h have dec:
    "confidence (access ''E'' (setWorkload Friendly scen6))
       = Max ((\<lambda>b. predictReuseProb (frequency b) (recency b + 1) Friendly)
                ` set (cache scen6))"
    "decisionMode (access ''E'' (setWorkload Friendly scen6))
       = (if Max ((\<lambda>b. predictReuseProb (frequency b) (recency b + 1) Friendly)
                    ` set (cache scen6)) > 0.88
          then Mode_ML else Mode_LRU_FALLBACK)"
    by blast+
  have c: "confidence (access ''E'' (setWorkload Friendly scen6)) = 0.55"
    by (simp only: dec(1) mx)
  have d: "decisionMode (access ''E'' (setWorkload Friendly scen6)) = Mode_LRU_FALLBACK"
    unfolding dec(2) mx by simp
  from same stale h mem fresh0 c d ml show ?thesis
    by blast
qed

section \<open>The end-to-end scenario\<close>

text \<open>
  C6, as stated: after the accesses A, B, C, D, A, A, E from the initial state (capacity
  4, Hostile), block A has recency 0. It does not: the eviction on the access of E ages
  every resident block, A included, so A (the block at index 0, the only one with id A)
  has recency 1.
\<close>

theorem scenario_recency_counterexample:
  "map id_block (cache (run initialState
      [Access ''A'', Access ''B'', Access ''C'', Access ''D'', Access ''A'', Access ''A'',
       Access ''E''])) = [''A'', ''E'', ''C'', ''D'']
   \<and> recency (cache (run initialState
      [Access ''A'', Access ''B'', Access ''C'', Access ''D'', Access ''A'', Access ''A'',
       Access ''E'']) ! 0) \<noteq> 0"
  by (simp add: run_scen7 scen7_def)

text \<open>
  C6, amended: after the first six accesses A, B, C, D, A, A, block A has frequency 3,
  recency 0 and score 0.95. The seventh access, E, is a miss on a full cache; it reports
  the confidence 0.95 and the decision mode ML, evicts B (the first block with the
  minimum score 0.4) and puts E in its place; after it A has frequency 3, recency 1 and
  score 0.95.
\<close>

theorem scenario_trace:
  "cache (run initialState
      [Access ''A'', Access ''B'', Access ''C'', Access ''D'', Access ''A'', Access ''A''])
     = [\<lparr>id_block = ''A'', recency = 0, frequency = 3, score = 0.95\<rparr>,
        \<lparr>id_block = ''B'', recency = 4, frequency = 1, score = 0.4\<rparr>,
        \<lparr>id_block = ''C'', recency = 3, frequency = 1, score = 0.4\<rparr>,
        \<lparr>id_block = ''D'', recency = 2, frequency = 1, score = 0.4\<rparr>]
   \<and> run initialState
      [Access ''A'', Access ''B'', Access ''C'', Access ''D'', Access ''A'', Access ''A'',
       Access ''E'']
     = \<lparr>cache =
          [\<lparr>id_block = ''A'', recency = 1, frequency = 3, score = 0.95\<rparr>,
           \<lparr>id_block = ''E'', recency = 0, frequency = 1, score = 0.4\<rparr>,
           \<lparr>id_block = ''C'', recency = 4, frequency = 1, score = 0.4\<rparr>,
           \<lparr>id_block = ''D'', recency = 3, frequency = 1, score = 0.4\<rparr>],
         workload = Hostile,
         lastAction = ''Evicted B via ML (Confidence > 0.88). Inserted E.'',
         confidence = 0.95, decisionMode = Mode_ML\<rparr>"
  by (simp add: run_scen6 run_scen7 scen6_def scen7_def)

end
